theory Spec2Isabelle
  imports Complex_Main "HOL-Library.AList"
begin

section \<open>BlendShapeMapper (src/BlendShapeMapper.js, first document)\<close>

text \<open>
  Channel names are strings of ASCII characters; \<open>toLowerCase\<close> and \<open>toUpperCase\<close> change
  the letters A to Z and a to z, as the JavaScript functions do on such strings.
\<close>

definition protectedEmotionShapes :: "string list" where
  "protectedEmotionShapes =
    [''BlendShapes_Main.happy_M'', ''BlendShapes_EyeLashes.happy_M'',
     ''BlendShapes_Eyebrows.happy_M'', ''BlendShapes_Beard.happy_M'',
     ''BlendShapes_Moustache.happy_M'', ''BlendShapes_Mouth.happy_M'',
     ''BlendShapes_Main.sad_M'', ''BlendShapes_EyeLashes.sad_M'', ''BlendShapes_Eyebrows.sad_M'',
     ''BlendShapes_Beard.sad_M'', ''BlendShapes_Moustache.sad_M'',
     ''BlendShapes_Main.angry_M'', ''BlendShapes_EyeLashes.angry_M'',
     ''BlendShapes_Eyebrows.angry_M'', ''BlendShapes_Beard.angry_M'',
     ''BlendShapes_Moustache.angry_M'',
     ''BlendShapes_Main.surprise_M'', ''BlendShapes_EyeLashes.surprise_M'',
     ''BlendShapes_Eyebrows.surprise_M'', ''BlendShapes_Beard.surprise_M'',
     ''BlendShapes_Moustache.surprise_M'', ''BlendShapes_Mouth.surprise_M'',
     ''BlendShapes_Main.fear_M'', ''BlendShapes_EyeLashes.fear_M'', ''BlendShapes_Eyebrows.fear_M'',
     ''BlendShapes_Beard.fear_M'', ''BlendShapes_Moustache.fear_M'', ''BlendShapes_Mouth.fear_M'',
     ''BlendShape_Main.Happy'', ''BlendShape_EyeLashes.Happy'', ''BlendShape_Eyebrows.Happy'',
     ''BlendShape_Beard.Happy'',
     ''BlendShape_Main.Sad'', ''BlendShape_EyeLashes.Sad'', ''BlendShape_Eyebrows.Sad'',
     ''BlendShape_Beard.Sad'',
     ''BlendShape_Main.Angry'', ''BlendShape_EyeLashes.Angry'', ''BlendShape_Eyebrows.Angry'',
     ''BlendShape_Beard.Angry'',
     ''BlendShape_Main.Surprise'', ''BlendShape_EyeLashes.Surprise'',
     ''BlendShape_Eyebrows.Surprise'', ''BlendShape_Beard.Surprise'',
     ''BlendShape_Main.Fear'', ''BlendShape_EyeLashes.Fear'', ''BlendShape_Eyebrows.Fear'',
     ''BlendShape_Beard.Fear'', ''BlendShape_Mouth.Fear'',
     ''BlendShape_EyeR.EyeLookOut_R'', ''BlendShape_EyeR.EyeLookOut_R'',
     ''BlendShape_EyeL.EyeLookIn_L'', ''BlendShape_EyeL.EyeLookOut_L'']"

definition toLowerChar :: "char \<Rightarrow> char" where
  "toLowerChar c =
     (case map_of (zip ''ABCDEFGHIJKLMNOPQRSTUVWXYZ'' ''abcdefghijklmnopqrstuvwxyz'') c of
        Some l \<Rightarrow> l
      | None \<Rightarrow> c)"

definition toLowerCase :: "string \<Rightarrow> string" where
  "toLowerCase s = map toLowerChar s"

definition toUpperChar :: "char \<Rightarrow> char" where
  "toUpperChar c =
     (case map_of (zip ''abcdefghijklmnopqrstuvwxyz'' ''ABCDEFGHIJKLMNOPQRSTUVWXYZ'') c of
        Some u \<Rightarrow> u
      | None \<Rightarrow> c)"

definition toUpperCase :: "string \<Rightarrow> string" where
  "toUpperCase s = map toUpperChar s"

text \<open>\<open>s.includes(t)\<close>: the string \<open>t\<close> occurs in \<open>s\<close> at some position.\<close>

fun includes_str :: "string \<Rightarrow> string \<Rightarrow> bool" where
  "includes_str [] t = (t = [])"
| "includes_str (c # s) t = (take (length t) (c # s) = t \<or> includes_str s t)"

text \<open>
  The argument is \<open>None\<close> for \<open>null\<close> and \<open>undefined\<close>; the test \<open>!shapeName\<close> also holds
  for the empty string.
\<close>

definition isProtectedEmotionShape :: "string option \<Rightarrow> bool" where
  "isProtectedEmotionShape shapeName =
     (case shapeName of
        None \<Rightarrow> False
      | Some n \<Rightarrow>
          if n = [] then False
          else list_ex (\<lambda>protectedShape.
                          includes_str (toLowerCase n) (toLowerCase protectedShape))
                 protectedEmotionShapes)"

abbreviation isProtected :: "string \<Rightarrow> bool" where
  "isProtected name \<equiv> isProtectedEmotionShape (Some name)"

definition standardPhonemes :: "(string \<times> string list) list" where
  "standardPhonemes =
    [(''AAA'', [''aaa_M'', ''AHH'', ''Ahh'']),
     (''EH'', [''eh_M'', ''EE'']),
     (''AHH'', [''ahh_M'', ''AHH'', ''Ahh'']),
     (''OHH'', [''ohh_M'', ''OW'', ''OU'']),
     (''UUU'', [''uuu_M'', ''OU'']),
     (''IEE'', [''iee_M'', ''EE'']),
     (''RRR'', [''rrr_M'', ''R'']),
     (''WWW'', [''www_M'', ''W'']),
     (''SSS'', [''sss_M'']),
     (''FFF'', [''fff_M'', ''FV'']),
     (''TTH'', [''tth_M'', ''TH'', ''Th'']),
     (''MBP'', [''mbp_M'', ''MBP'']),
     (''TLDN'', [''TLDN''])]"

definition prefixMappings :: "(string \<times> string list) list" where
  "prefixMappings =
    [(''head'', [''BlendShapes_Main.'', ''BlendShape_Main.'']),
     (''mouth'', [''BlendShapes_Mouth.'', ''BlendShape_Mouth.'']),
     (''beard'', [''BlendShapes_Beard.'', ''BlendShape_Beard.'', ''BlendShapes_Beards.'']),
     (''moustache'', [''BlendShapes_Moustache.'', ''BlendShape_Moustache.''])]"

text \<open>Every entry of \<open>syncedMovements\<close> gives the same list to its four model parts.\<close>

definition syncedParts :: "string list \<Rightarrow> (string \<times> string list) list" where
  "syncedParts shapes =
     [(''mouth'', shapes), (''head'', shapes), (''beard'', shapes), (''moustache'', shapes)]"

definition syncedMovements :: "(string \<times> (string \<times> string list) list) list" where
  "syncedMovements =
    [(''AAA'', syncedParts [''aaa_M'', ''AHH'', ''Ahh'']),
     (''EH'', syncedParts [''eh_M'', ''EE'']),
     (''AHH'', syncedParts [''ahh_M'', ''AHH'', ''Ahh'']),
     (''OHH'', syncedParts [''ohh_M'', ''OU'']),
     (''UUU'', syncedParts [''uuu_M'', ''OW'']),
     (''IEE'', syncedParts [''iee_M'', ''EE'']),
     (''RRR'', syncedParts [''rrr_M'', ''R'']),
     (''WWW'', syncedParts [''www_M'', ''W'']),
     (''SSS'', syncedParts [''sss_M'', ''FV'']),
     (''FFF'', syncedParts [''fff_M'', ''FV'']),
     (''TTH'', syncedParts [''tth_M'', ''TH'', ''Th'']),
     (''MBP'', syncedParts [''mbp_M'', ''MBP'']),
     (''TLDN'', syncedParts [''TLDN''])]"

text \<open>\<open>table[key] || []\<close>.\<close>

definition lookupOrEmpty :: "(string \<times> 'a list) list \<Rightarrow> string \<Rightarrow> 'a list" where
  "lookupOrEmpty table key = (case map_of table key of None \<Rightarrow> [] | Some v \<Rightarrow> v)"

text \<open>A match \<open>{name, weight}\<close> is a pair.\<close>

definition mapPhonemeToBlendShapes ::
  "string list \<Rightarrow> string \<Rightarrow> string \<Rightarrow> (string \<times> real) list" where
  "mapPhonemeToBlendShapes availableBlendShapes standardPhoneme modelPart =
     (let phonemeVariants = lookupOrEmpty standardPhonemes standardPhoneme;
          prefixes = lookupOrEmpty prefixMappings modelPart;
          syncedShapes = lookupOrEmpty (lookupOrEmpty syncedMovements standardPhoneme) modelPart;
          availableNonEmotionShapes =
            filter (\<lambda>shape. \<not> isProtected shape) availableBlendShapes
      in fold (\<lambda>prefix matches.
           (let matches1 =
                  fold (\<lambda>variant ms.
                         (let fullName = prefix @ variant in
                          if fullName \<in> set availableNonEmotionShapes
                          then ms @ [(fullName, 0.7)] else ms))
                    phonemeVariants matches
            in fold (\<lambda>syncedShape ms.
                      (let fullName = prefix @ syncedShape in
                       if fullName \<in> set availableNonEmotionShapes \<and>
                          \<not> list_ex (\<lambda>m. fst m = fullName) ms
                       then ms @ [(fullName, 0.7)] else ms))
                 syncedShapes matches1))
           prefixes [])"

section \<open>AudioAnalyzer (src/BlendShapeMapper.js, second document)\<close>

text \<open>
  JavaScript numbers are IEEE 754 double-precision values. The times in seconds and the
  durations in milliseconds that \<open>detectPauses\<close> computes are rounded as the source rounds
  them: \<open>fl x\<close> is the double nearest to the real number \<open>x\<close>, and every division,
  subtraction and multiplication on times is followed by \<open>fl\<close>. Sample amplitudes (the
  values of a \<open>Float32Array\<close>), the sums of their squares and the root mean square of a
  window are real numbers. Array indices and window sizes are of type \<^typ>\<open>nat\<close>: they
  stay below \<open>2^53\<close>, where doubles hold integers exactly.
\<close>

subsection \<open>Rounding to double precision\<close>

text \<open>
  Rounding to the nearest integer, a tie going to the even one.
\<close>

definition roundHalfEven :: "real \<Rightarrow> int" where
  "roundHalfEven x =
     (let f = \<lfloor>x\<rfloor> in
      if x - of_int f < 1 / 2 then f
      else if x - of_int f > 1 / 2 then f + 1
      else if even f then f else f + 1)"

text \<open>
  The binary exponent of a double holding \<open>x\<close>: that of \<open>x\<close>, and \<open>- 1022\<close> for the
  subnormal numbers.
\<close>

definition binaryExponent :: "real \<Rightarrow> int" where
  "binaryExponent x = max (- 1022) \<lfloor>log 2 \<bar>x\<bar>\<rfloor>"

text \<open>
  The double nearest to \<open>x\<close>: a multiple of the unit in the last place, which is
  \<open>2\<close> to the power \<open>binaryExponent x - 52\<close>, a significand having 53 bits. The results
  \<open>Infinity\<close> and \<open>NaN\<close> have no counterpart; the arithmetic on times does not produce
  them when the window size is positive, the sample rate being at least 100 then.
\<close>

definition fl :: "real \<Rightarrow> real" where
  "fl x =
     (if x = 0 then 0
      else (let u = 2 powi (binaryExponent x - 52)
            in of_int (roundHalfEven (x / u)) * u))"

record config =
  silenceThreshold :: real
  minPauseDuration :: real
  shortPauseThreshold :: real
  mediumPauseThreshold :: real

definition defaultConfig :: config where
  "defaultConfig =
     \<lparr>silenceThreshold = 0.015, minPauseDuration = 150,
      shortPauseThreshold = 250, mediumPauseThreshold = 500\<rparr>"

text \<open>A detected pause: \<open>{start, end, duration, type}\<close> of the source.\<close>

record pause =
  pause_start :: real
  pause_end :: real
  pause_duration :: real
  pause_type :: string

text \<open>An \<open>AudioBuffer\<close>: the samples of channel 0 and the sample rate.\<close>

record audioBuffer =
  channelData :: "real list"
  sampleRate :: real

subsection \<open>getPauseAtTime\<close>

fun getPauseAtTime :: "pause list \<Rightarrow> real \<Rightarrow> pause option" where
  "getPauseAtTime [] time = None"
| "getPauseAtTime (p # ps) time =
     (if time \<ge> pause_start p \<and> time \<le> pause_end p then Some p
      else getPauseAtTime ps time)"

definition isInPause :: "pause list \<Rightarrow> real \<Rightarrow> bool" where
  "isInPause ps time = (getPauseAtTime ps time \<noteq> None)"

subsection \<open>detectPauses\<close>

text \<open>
  The block that closes a pause candidate occurs twice in \<open>detectPauses\<close> with the same
  text (inside the loop and after it); \<open>recordPause\<close> is that block: it pushes the pause
  when its duration reaches \<open>minPauseDuration\<close> and classifies it.
\<close>

definition recordPause :: "config \<Rightarrow> real \<Rightarrow> real \<Rightarrow> pause list \<Rightarrow> pause list" where
  "recordPause cfg pauseStart timeSeconds pauses =
     (let pauseDuration = fl (fl (timeSeconds - pauseStart) * 1000) in
      if pauseDuration \<ge> minPauseDuration cfg then
        (let pauseType =
               (if pauseDuration < shortPauseThreshold cfg then ''PAUSE_SHORT''
                else if pauseDuration < mediumPauseThreshold cfg then ''PAUSE_MED''
                else ''PAUSE_LONG'')
         in pauses @ [\<lparr>pause_start = pauseStart, pause_end = timeSeconds,
                         pause_duration = pauseDuration, pause_type = pauseType\<rparr>])
      else pauses)"

text \<open>The inner loop \<open>for (j = i; j < end; j++) sumSquares += channelData[j] * channelData[j]\<close>.\<close>

definition sumSquaresOf :: "real list \<Rightarrow> nat \<Rightarrow> nat \<Rightarrow> real" where
  "sumSquaresOf cd i e = fold (\<lambda>j s. s + cd ! j * cd ! j) [i..<e] 0"

text \<open>
  One iteration of the outer loop at window start \<open>i\<close>, on the loop variables
  \<open>(inPause, pauseStart, pauses)\<close>. With \<open>windowSize = 0\<close> the window is empty and the
  source divides 0 by 0: the RMS is NaN and no comparison with it holds, so the window is
  not silent.
\<close>

definition windowRms :: "real list \<Rightarrow> nat \<Rightarrow> nat \<Rightarrow> real" where
  "windowRms cd i windowSize =
     (let e = min (i + windowSize) (length cd) in
      sqrt (sumSquaresOf cd i e / real (e - i)))"

definition windowSilent :: "config \<Rightarrow> real list \<Rightarrow> nat \<Rightarrow> nat \<Rightarrow> bool" where
  "windowSilent cfg cd i windowSize =
     (min (i + windowSize) (length cd) \<noteq> i \<and>
      windowRms cd i windowSize < silenceThreshold cfg)"

definition windowStep ::
  "config \<Rightarrow> real list \<Rightarrow> real \<Rightarrow> nat \<Rightarrow> nat \<Rightarrow> bool \<times> real \<times> pause list
     \<Rightarrow> bool \<times> real \<times> pause list" where
  "windowStep cfg cd sr windowSize i st =
     (case st of (inPause, pauseStart, pauses) \<Rightarrow>
       (let isSilent = windowSilent cfg cd i windowSize;
            timeSeconds = fl (real i / sr)
        in if isSilent \<and> \<not> inPause then (True, timeSeconds, pauses)
           else if \<not> isSilent \<and> inPause then
             (False, pauseStart, recordPause cfg pauseStart timeSeconds pauses)
           else (inPause, pauseStart, pauses)))"

text \<open>
  The outer loop \<open>for (i = 0; i < channelData.length; i += windowSize)\<close>. It does not end
  when \<open>windowSize\<close> is 0 and the buffer is not empty; the result \<open>None\<close> stands for that.
\<close>

partial_function (option) windowLoop ::
  "config \<Rightarrow> real list \<Rightarrow> real \<Rightarrow> nat \<Rightarrow> nat \<Rightarrow> bool \<times> real \<times> pause list
     \<Rightarrow> (bool \<times> real \<times> pause list) option" where
  "windowLoop cfg cd sr windowSize i st =
     (if i < length cd
      then windowLoop cfg cd sr windowSize (i + windowSize) (windowStep cfg cd sr windowSize i st)
      else Some st)"

definition windowSizeOf :: "real \<Rightarrow> nat" where
  "windowSizeOf sr = nat \<lfloor>sr * 0.01\<rfloor>"

definition detectPauses :: "config \<Rightarrow> audioBuffer \<Rightarrow> pause list option" where
  "detectPauses cfg buffer =
     (let cd = channelData buffer;
          sr = sampleRate buffer;
          windowSize = windowSizeOf sr
      in case windowLoop cfg cd sr windowSize 0 (False, 0, []) of
           None \<Rightarrow> None
         | Some (inPause, pauseStart, pauses) \<Rightarrow>
             Some (if inPause
                   then recordPause cfg pauseStart (fl (real (length cd) / sr)) pauses
                   else pauses))"

section \<open>LipSyncController (src/LipSyncController.js)\<close>

text \<open>
  A control of \<open>blendShapeControls\<close>: whether \<open>control.mesh\<close> is set, \<open>control.index\<close> when
  it is a number, and \<open>control.name\<close>. The object \<open>blendShapeControls\<close> is the list of its
  entries in key order; the value of an entry is \<open>None\<close> when the property holds \<open>null\<close> or
  \<open>undefined\<close>.

  The two writes \<open>control.mesh.morphTargetInfluences[control.index] = v\<close> and
  \<open>control.value = v\<close> are the subsystem's output for a channel; \<open>sink\<close> keeps, for every
  channel name, the last weight written that way, and has no entry for a channel that was
  never written.

  The JavaScript \<open>Map\<close>s are association lists in insertion order: \<open>AList.update\<close> is
  \<open>set\<close>, \<open>AList.delete\<close> is \<open>delete\<close>, \<open>map_of\<close> is \<open>get\<close>.
\<close>

datatype error = TypeError

record control =
  control_mesh :: bool
  control_index :: "nat option"
  control_name :: string

datatype event = Apply string | Anticipate string string real

record prepared =
  phonemes :: "string list"
  anticipationEnabled :: bool
  anticipationFactor :: real
  anticipationOffset :: real

record controller =
  blendShapeControls :: "(string \<times> control option) list"
  isAnimating :: bool
  usingAudioBasedPauses :: bool
  currentAudio :: bool
  pauseUpdateInterval :: bool
  detectedPauses :: "pause list"
  analyzerPauses :: "pause list"
  lastAppliedPauseId :: "(int \<times> string) option"
  currentlyInPause :: bool
  phonemeOffsetMs :: real
  transitionDuration :: real
  phonemeSpeedMs :: real
  endDelayMs :: real
  lastPhonemeTime :: real
  anticipation_enabled :: bool
  anticipation_factor :: real
  anticipation_offsetFactor :: real
  preparedPhonemes :: "prepared option"
  currentBlendShapes :: "(string \<times> real) list"
  targetBlendShapes :: "(string \<times> real) list"
  sink :: "(string \<times> real) list"
  timers :: "(real \<times> event) list"

text \<open>
  \<open>currentAudio\<close> tells whether an audio element is attached (its clock is an argument of
  the poll), \<open>pauseUpdateInterval\<close> whether the poll interval is registered,
  \<open>analyzerPauses\<close> is \<open>audioAnalyzer.pauses\<close>, and \<open>timers\<close> are the callbacks registered
  with \<open>setTimeout\<close> and not yet run, with their delays, in the order of registration.
\<close>

definition speechRate :: "(string \<times> real) list" where
  "speechRate = [(''slow'', 155), (''normal'', 135), (''fast'', 115)]"

definition phonemeDurations :: "(string \<times> real) list" where
  "phonemeDurations =
    [(''AAA'', 1.3), (''EH'', 1.2), (''AHH'', 1.2), (''IEE'', 1.2), (''OHH'', 1.3), (''UUU'', 1.2),
     (''SSS'', 0.9), (''FFF'', 0.8), (''TTH'', 0.75), (''MBP'', 0.8), (''RRR'', 0.9),
     (''WWW'', 0.9), (''SSH'', 0.9),
     (''PAUSE_SHORT'', 2.0), (''PAUSE_MED'', 3.0), (''PAUSE_LONG'', 4.5)]"

text \<open>The state the constructor leaves, before \<open>initializeBlendShapes\<close>.\<close>

definition newController :: "(string \<times> control option) list \<Rightarrow> controller" where
  "newController controls =
     \<lparr>blendShapeControls = controls, isAnimating = False, usingAudioBasedPauses = False,
      currentAudio = False, pauseUpdateInterval = False, detectedPauses = [],
      analyzerPauses = [], lastAppliedPauseId = None, currentlyInPause = False,
      phonemeOffsetMs = 50, transitionDuration = 105, phonemeSpeedMs = 135, endDelayMs = 550,
      lastPhonemeTime = 0, anticipation_enabled = False, anticipation_factor = 0.35,
      anticipation_offsetFactor = 0.6, preparedPhonemes = None, currentBlendShapes = [],
      targetBlendShapes = [], sink = [], timers = []\<rparr>"

text \<open>\<open>this.blendShapeControls[name]\<close>, when it is an object.\<close>

definition controlAt :: "(string \<times> control option) list \<Rightarrow> string \<Rightarrow> control option" where
  "controlAt controls name =
     (case map_of controls name of Some (Some c) \<Rightarrow> Some c | _ \<Rightarrow> None)"

text \<open>\<open>map.get(name) || 0\<close>.\<close>

definition getOrZero :: "(string \<times> real) list \<Rightarrow> string \<Rightarrow> real" where
  "getOrZero m name = (case map_of m name of None \<Rightarrow> 0 | Some v \<Rightarrow> v)"

definition initializeBlendShapes :: "controller \<Rightarrow> controller" where
  "initializeBlendShapes s =
     fold (\<lambda>(name, control) s.
            (case control of
               None \<Rightarrow> s
             | Some c \<Rightarrow>
                 if control_mesh c \<and> control_index c \<noteq> None \<and> \<not> isProtected name
                 then s\<lparr>currentBlendShapes := AList.update name 0 (currentBlendShapes s),
                        targetBlendShapes := AList.update name 0 (targetBlendShapes s),
                        sink := AList.update name 0 (sink s)\<rparr>
                 else s))
       (blendShapeControls s) s"

definition pauseNames :: "string list" where
  "pauseNames = [''PAUSE_SHORT'', ''PAUSE_MED'', ''PAUSE_LONG'']"

definition isPausePhoneme :: "string \<Rightarrow> bool" where
  "isPausePhoneme phoneme = (phoneme \<in> set pauseNames)"

definition vowels :: "string list" where
  "vowels = [''AAA'', ''EH'', ''IEE'', ''OHH'', ''UUU'']"

definition pauseJawNames :: "string list" where
  "pauseJawNames =
    [''BlendShapes_Main.mouth_open_M'', ''BlendShape_Main.MouthOpen'',
     ''BlendShapes_Mouth.mouth_open_M'', ''BlendShape_Mouth.MouthOpen'',
     ''BlendShapes_Beard.mouth_open_M'', ''BlendShape_Beard.MouthOpen'',
     ''BlendShapes_Moustache.mouth_open_M'', ''BlendShape_Moustache.MouthOpen'']"

definition vowelJawNames :: "string list" where
  "vowelJawNames =
    [''BlendShapes_Mouth.mouth_open_M'', ''BlendShape_Main.MouthOpen'',
     ''BlendShapes_Teeth.mouth_open_M'', ''BlendShape_Teeth.MouthOpen'',
     ''BlendShapes_Beard.mouth_open_M'', ''BlendShape_Beard.MouthOpen'',
     ''BlendShapes_Moustache.mouth_open_M'', ''BlendShape_Moustache.MouthOpen'']"

text \<open>
  The loop \<open>Object.keys(this.blendShapeControls).forEach(name => ...)\<close> that sets the target
  of every channel that is not protected to 0.
\<close>

definition resetTargets ::
  "(string \<times> control option) list \<Rightarrow> (string \<times> real) list \<Rightarrow> (string \<times> real) list" where
  "resetTargets controls target =
     fold (\<lambda>name tg. if \<not> isProtected name then AList.update name 0 tg else tg)
       (map fst controls) target"

text \<open>
  The array \<open>jawControls\<close>: the controls under the given keys, filtered by
  \<open>control && !isProtectedEmotionShape(control.name)\<close>; and the loop that sets their targets.
\<close>

definition jawControls :: "(string \<times> control option) list \<Rightarrow> string list \<Rightarrow> control list" where
  "jawControls controls names =
     filter (\<lambda>c. \<not> isProtected (control_name c)) (List.map_filter (controlAt controls) names)"

definition setJawTargets :: "control list \<Rightarrow> real \<Rightarrow> (string \<times> real) list \<Rightarrow> (string \<times> real) list" where
  "setJawTargets jaws v target = fold (\<lambda>c tg. AList.update (control_name c) v tg) jaws target"

text \<open>The object \<open>{head, mouth, beard, moustache}\<close> of mapped shapes, in that order.\<close>

definition mappedShapesOf ::
  "(string \<times> control option) list \<Rightarrow> string \<Rightarrow> (string \<times> real) list list" where
  "mappedShapesOf controls phoneme =
     (let availableBlendShapes = filter (\<lambda>name. \<not> isProtected name) (map fst controls)
      in [mapPhonemeToBlendShapes availableBlendShapes phoneme ''head'',
          mapPhonemeToBlendShapes availableBlendShapes phoneme ''mouth'',
          mapPhonemeToBlendShapes availableBlendShapes phoneme ''beard'',
          mapPhonemeToBlendShapes availableBlendShapes phoneme ''moustache''])"

definition applyPhoneme :: "string \<Rightarrow> controller \<Rightarrow> controller" where
  "applyPhoneme phoneme s =
     (let controls = blendShapeControls s in
      if isPausePhoneme phoneme then
        (let target1 = resetTargets controls (targetBlendShapes s);
             jawOpenValue = 0
         in s\<lparr>targetBlendShapes :=
                 setJawTargets (jawControls controls pauseJawNames) jawOpenValue target1\<rparr>)
      else
        (let mappedShapes = mappedShapesOf controls phoneme;
             target1 = resetTargets controls (targetBlendShapes s);
             target2 =
               fold (\<lambda>shapes tg.
                      fold (\<lambda>(name, weight) tg.
                             if controlAt controls name \<noteq> None \<and> \<not> isProtected name
                             then AList.update name weight tg else tg)
                        shapes tg)
                 mappedShapes target1;
             target3 =
               (if phoneme \<in> set vowels
                then setJawTargets (jawControls controls vowelJawNames) 0.5 target2
                else target2)
         in s\<lparr>targetBlendShapes := target3\<rparr>))"

text \<open>
  \<open>nextPhoneme\<close> is \<open>None\<close> for \<open>null\<close>; the test \<open>!nextPhoneme\<close> also holds for the empty
  string.
\<close>

definition applyAnticipatedPhoneme ::
  "string \<Rightarrow> string option \<Rightarrow> real \<Rightarrow> controller \<Rightarrow> controller" where
  "applyAnticipatedPhoneme currentPhoneme nextPhoneme blendFactor s =
     (case nextPhoneme of
        None \<Rightarrow> s
      | Some nextP \<Rightarrow>
        if nextP = [] then s
        else
          (let controls = blendShapeControls s in
           if isPausePhoneme nextP then
             s\<lparr>targetBlendShapes :=
                 fold (\<lambda>name tg.
                        if \<not> isProtected name
                        then (let currentValue = getOrZero tg name
                              in AList.update name (currentValue * (1 - blendFactor)) tg)
                        else tg)
                   (map fst controls) (targetBlendShapes s)\<rparr>
           else if isPausePhoneme currentPhoneme then s
           else
             (let currentMappedShapes = mappedShapesOf controls currentPhoneme;
                  nextMappedShapes = mappedShapesOf controls nextP;
                  blended1 =
                    fold (\<lambda>shapes b.
                           fold (\<lambda>(name, weight) b.
                                  if controlAt controls name \<noteq> None \<and> \<not> isProtected name
                                  then AList.update name (weight * (1 - blendFactor)) b else b)
                             shapes b)
                      currentMappedShapes [];
                  blendedShapes =
                    fold (\<lambda>shapes b.
                           fold (\<lambda>(name, weight) b.
                                  if controlAt controls name \<noteq> None \<and> \<not> isProtected name
                                  then (let currentWeight = getOrZero b name
                                        in AList.update name (currentWeight + weight * blendFactor) b)
                                  else b)
                             shapes b)
                      nextMappedShapes blended1;
                  target1 =
                    fold (\<lambda>(name, weight) tg. AList.update name weight tg)
                      blendedShapes (targetBlendShapes s);
                  isCurrentVowel = (currentPhoneme \<in> set vowels);
                  isNextVowel = (nextP \<in> set vowels);
                  target2 =
                    (if isCurrentVowel \<or> isNextVowel then
                       (let jawWeight = (if isCurrentVowel then 0.5 * (1 - blendFactor) else 0);
                            nextJawWeight = (if isNextVowel then 0.5 * blendFactor else 0);
                            blendedJawWeight = jawWeight + nextJawWeight
                        in setJawTargets (jawControls controls vowelJawNames)
                             blendedJawWeight target1)
                     else target1)
              in s\<lparr>targetBlendShapes := target2\<rparr>)))"

text \<open>
  \<open>interpolateBlendShapes\<close> runs over the entries of \<open>targetBlendShapes\<close>; the target map is
  not changed by the loop. \<open>transitionDuration\<close> is positive (105 by default, 50 to 300 from
  the slider).
\<close>

definition interpolateBlendShapes :: "real \<Rightarrow> controller \<Rightarrow> controller" where
  "interpolateBlendShapes delta s =
     fold (\<lambda>(name, targetValue) s.
            (let currentValue = getOrZero (currentBlendShapes s) name in
             case controlAt (blendShapeControls s) name of
               None \<Rightarrow> s
             | Some c \<Rightarrow>
                 if control_mesh c \<and> control_index c \<noteq> None \<and> \<not> isProtected name then
                   (let t = min 1 (delta / (transitionDuration s / 1000));
                        newValue = currentValue + (targetValue - currentValue) * t
                    in s\<lparr>sink := AList.update name newValue (sink s),
                          currentBlendShapes := AList.update name newValue (currentBlendShapes s)\<rparr>)
                 else s))
       (targetBlendShapes s) s"

text \<open>One frame of \<open>animate\<close>, \<open>delta\<close> seconds after the previous one.\<close>

definition animate :: "real \<Rightarrow> controller \<Rightarrow> controller" where
  "animate delta s = (if \<not> isAnimating s then s else interpolateBlendShapes delta s)"

definition clearAudioSource :: "controller \<Rightarrow> controller" where
  "clearAudioSource s =
     s\<lparr>pauseUpdateInterval := False, currentAudio := False, detectedPauses := [],
       usingAudioBasedPauses := False, lastAppliedPauseId := None, currentlyInPause := False\<rparr>"

definition startAudioPauseMonitoring :: "controller \<Rightarrow> controller" where
  "startAudioPauseMonitoring s =
     s\<lparr>lastAppliedPauseId := None, currentlyInPause := False, pauseUpdateInterval := True\<rparr>"

text \<open>
  \<open>setAudioSource\<close> with an audio element and a blob or a source URL; \<open>analysis\<close> is what the
  analyzer's \<open>analyzeFromBlob\<close> or \<open>analyzeFromUrl\<close> yields: the detected pauses, which it
  also stores in \<open>audioAnalyzer.pauses\<close>, or \<open>None\<close> when it throws.
\<close>

definition setAudioSource :: "pause list option \<Rightarrow> controller \<Rightarrow> bool \<times> controller" where
  "setAudioSource analysis s =
     (let s1 = (clearAudioSource s)\<lparr>currentAudio := True\<rparr> in
      case analysis of
        None \<Rightarrow> (False, s1\<lparr>usingAudioBasedPauses := False\<rparr>)
      | Some ps \<Rightarrow>
          (let s2 = s1\<lparr>analyzerPauses := ps, detectedPauses := ps,
                        usingAudioBasedPauses := (length ps > 0)\<rparr>
           in if usingAudioBasedPauses s2 then (True, startAudioPauseMonitoring s2)
              else (False, s2)))"

definition applyPausePhoneme :: "string \<Rightarrow> controller \<Rightarrow> controller" where
  "applyPausePhoneme pauseType s =
     (if pauseType \<notin> set pauseNames then s
      else s\<lparr>targetBlendShapes := resetTargets (blendShapeControls s) (targetBlendShapes s)\<rparr>)"

text \<open>
  The identifier \<open>start.toFixed(3) + '_' + type\<close> of a pause: two such strings are equal
  exactly when the start times rounded to milliseconds and the types are equal, so the
  identifier is that pair.
\<close>

definition pauseId :: "pause \<Rightarrow> int \<times> string" where
  "pauseId p = (round (pause_start p * 1000), pause_type p)"

text \<open>
  The callback of the poll interval, run with the audio clock at \<open>currentTime\<close>. The Boolean
  of the result tells whether this poll applied the pause pose, that is, whether it called
  \<open>applyPausePhoneme\<close>.
\<close>

definition pausePoll :: "real \<Rightarrow> controller \<Rightarrow> bool \<times> controller" where
  "pausePoll currentTime s =
     (if \<not> currentAudio s \<or> \<not> isAnimating s \<or> \<not> usingAudioBasedPauses s then (False, s)
      else
        (case getPauseAtTime (analyzerPauses s) currentTime of
           Some currentPause \<Rightarrow>
             (let pid = pauseId currentPause in
              if \<not> currentlyInPause s \<or> lastAppliedPauseId s \<noteq> Some pid then
                (True, (applyPausePhoneme (pause_type currentPause) s)
                         \<lparr>lastAppliedPauseId := Some pid, currentlyInPause := True\<rparr>)
              else (False, s))
         | None \<Rightarrow>
             if currentlyInPause s then (False, s\<lparr>currentlyInPause := False\<rparr>)
             else (False, s)))"

text \<open>
  \<open>resetBlendShapes\<close>. Its second loop reads \<open>control.mesh\<close> of every entry of
  \<open>blendShapeControls\<close> without testing the control first: on an entry that holds \<open>null\<close> or
  \<open>undefined\<close> the read throws a \<open>TypeError\<close>. A function that can throw returns
  \<open>Inl\<close> with the error and the state the throw leaves behind, or \<open>Inr\<close> with its result.
\<close>

fun resetControls ::
  "(string \<times> control option) list \<Rightarrow> (string \<times> real) list
     \<Rightarrow> error \<times> (string \<times> real) list + (string \<times> real) list" where
  "resetControls [] sk = Inr sk"
| "resetControls ((name, None) # controls) sk = Inl (TypeError, sk)"
| "resetControls ((name, Some c) # controls) sk =
     resetControls controls
       (if control_mesh c \<and> control_index c \<noteq> None \<and> \<not> isProtected name
        then AList.update name 0 sk else sk)"

definition resetBlendShapes :: "controller \<Rightarrow> error \<times> controller + controller" where
  "resetBlendShapes s =
     (let s1 =
            fold (\<lambda>name s.
                   if \<not> isProtected name
                   then s\<lparr>targetBlendShapes := AList.delete name (targetBlendShapes s),
                          currentBlendShapes := AList.delete name (currentBlendShapes s)\<rparr>
                   else s)
              (map fst (targetBlendShapes s)) s
      in case resetControls (blendShapeControls s1) (sink s1) of
           Inl (e, sk) \<Rightarrow> Inl (e, s1\<lparr>sink := sk\<rparr>)
         | Inr sk \<Rightarrow> Inr (s1\<lparr>sink := sk\<rparr>))"

definition stopAnimation :: "controller \<Rightarrow> error \<times> controller + controller" where
  "stopAnimation s = resetBlendShapes (clearAudioSource (s\<lparr>isAnimating := False\<rparr>))"

subsection \<open>Scheduling\<close>

text \<open>
  The loop of \<open>startPreparedAnimation\<close> over the prepared phonemes: \<open>currentTime\<close> is the
  running offset, the result is the timers registered and the last value of
  \<open>lastPhonemeTime\<close>. \<open>nextPhoneme\<close> is \<open>null\<close> at the last phoneme, and the test
  \<open>anticipationEnabled && nextPhoneme\<close> fails on an empty string as well.
\<close>

definition durationMultiplierOf :: "string \<Rightarrow> real" where
  "durationMultiplierOf phoneme =
     (case map_of phonemeDurations phoneme of None \<Rightarrow> 1.0 | Some m \<Rightarrow> m)"

fun scheduleLoop ::
  "real \<Rightarrow> bool \<Rightarrow> real \<Rightarrow> real \<Rightarrow> real \<Rightarrow> string list \<Rightarrow> (real \<times> event) list \<times> real
     \<Rightarrow> (real \<times> event) list \<times> real" where
  "scheduleLoop speedMs enabled factor offset currentTime [] acc = acc"
| "scheduleLoop speedMs enabled factor offset currentTime (currentPhoneme # rest) (ts, lastTime) =
     (let nextPhoneme = (case rest of [] \<Rightarrow> None | n # _ \<Rightarrow> Some n);
          ts1 = ts @ [(currentTime, Apply currentPhoneme)];
          ts2 =
            (case nextPhoneme of
               None \<Rightarrow> ts1
             | Some n \<Rightarrow>
                 if enabled \<and> n \<noteq> []
                 then ts1 @ [(currentTime + offset, Anticipate currentPhoneme n factor)]
                 else ts1);
          durationMultiplier = durationMultiplierOf currentPhoneme;
          phonemeDuration = speedMs * durationMultiplier;
          currentTime' = currentTime + phonemeDuration
      in scheduleLoop speedMs enabled factor offset currentTime' rest (ts2, currentTime'))"

text \<open>
  \<open>startPreparedAnimation\<close> returns the estimated duration. It fails only through
  \<open>stopAnimation\<close>. Its last step \<open>this.animate()\<close> runs a first frame at once; \<open>delta\<close> is
  the time in seconds since the previous frame (0 when there was none).
\<close>

definition startPreparedAnimation ::
  "real \<Rightarrow> controller \<Rightarrow> error \<times> controller + real \<times> controller" where
  "startPreparedAnimation delta s =
     (case preparedPhonemes s of
        None \<Rightarrow> Inr (0, s)
      | Some pp \<Rightarrow>
          (case (if isAnimating s then stopAnimation s else Inr s) of
             Inl e \<Rightarrow> Inl e
           | Inr s1 \<Rightarrow>
               (let s2 = s1\<lparr>isAnimating := True, lastPhonemeTime := 0\<rparr>;
                    (ts, lastTime) =
                      scheduleLoop (phonemeSpeedMs s2) (anticipationEnabled pp)
                        (anticipationFactor pp) (anticipationOffset pp) (phonemeOffsetMs s2)
                        (phonemes pp) (timers s2, lastPhonemeTime s2);
                    s3 = s2\<lparr>timers := ts, lastPhonemeTime := lastTime, preparedPhonemes := None\<rparr>
                in Inr (lastPhonemeTime s3 + endDelayMs s3, animate delta s3))))"

subsection \<open>speak\<close>

definition getPhonemeFromChar :: "char \<Rightarrow> char option \<Rightarrow> string" where
  "getPhonemeFromChar c nextChar =
     (if (case nextChar of None \<Rightarrow> False | Some n \<Rightarrow> [c, n] = ''TH'') then ''TTH''
      else if c \<in> set ''AEIOU'' then
        (case map_of [(CHR ''A'', ''AAA''), (CHR ''E'', ''EH''), (CHR ''I'', ''IEE''),
                      (CHR ''O'', ''OHH''), (CHR ''U'', ''UUU'')] c of
           Some p \<Rightarrow> p | None \<Rightarrow> ''MBP'')
      else
        (case map_of [(CHR ''F'', ''FFF''), (CHR ''V'', ''FFF''), (CHR ''M'', ''MBP''),
                      (CHR ''B'', ''MBP''), (CHR ''P'', ''MBP''), (CHR ''R'', ''RRR''),
                      (CHR ''S'', ''SSS''), (CHR ''W'', ''WWW'')] c of
           Some p \<Rightarrow> p | None \<Rightarrow> ''MBP''))"

text \<open>The \<open>while\<close> loop of \<open>preparePhonemes\<close>: a phoneme \<open>TTH\<close> consumes two characters.\<close>

fun charsToPhonemes :: "string \<Rightarrow> string list" where
  "charsToPhonemes [] = []"
| "charsToPhonemes [c] = [getPhonemeFromChar c None]"
| "charsToPhonemes (c # n # rest) =
     (let phoneme = getPhonemeFromChar c (Some n) in
      if phoneme = ''TTH'' then phoneme # charsToPhonemes rest
      else phoneme # charsToPhonemes (n # rest))"

definition preparedOf :: "string list \<Rightarrow> controller \<Rightarrow> prepared" where
  "preparedOf ps s =
     \<lparr>phonemes = ps, anticipationEnabled = anticipation_enabled s,
      anticipationFactor = anticipation_factor s,
      anticipationOffset = phonemeSpeedMs s * anticipation_offsetFactor s\<rparr>"

definition preparePhonemes :: "string \<Rightarrow> controller \<Rightarrow> controller" where
  "preparePhonemes txt s =
     (if txt = [] then s
      else s\<lparr>preparedPhonemes := Some (preparedOf (charsToPhonemes (toUpperCase txt)) s)\<rparr>)"

text \<open>
  \<open>speak\<close>, when no callback runs while it awaits \<open>getPhonemes(text)\<close> (the analysis of
  the text is in the cache, say). \<open>fetched\<close> is the outcome of \<open>getPhonemes\<close>: the phoneme
  sequence, or \<open>None\<close> when the request throws and the character-based preparation is used;
  135 is \<open>speechRate.normal\<close>, and \<open>delta\<close> is passed to \<open>startPreparedAnimation\<close>.
  The result is \<open>None\<close> when \<open>speak\<close> returns without a duration.
\<close>

definition speak ::
  "string \<Rightarrow> string \<Rightarrow> string list option \<Rightarrow> real \<Rightarrow> controller
     \<Rightarrow> error \<times> controller + real option \<times> controller" where
  "speak txt speed fetched delta s =
     (if txt = [] then Inr (None, s)
      else
        (case (if isAnimating s then stopAnimation s else Inr s) of
           Inl e \<Rightarrow> Inl e
         | Inr s1 \<Rightarrow>
             (let s2 = s1\<lparr>phonemeSpeedMs :=
                            (case map_of speechRate speed of Some r \<Rightarrow> r | None \<Rightarrow> 135)\<rparr>;
                  s3 = (case fetched of
                          Some ps \<Rightarrow> s2\<lparr>preparedPhonemes := Some (preparedOf ps s2)\<rparr>
                        | None \<Rightarrow> preparePhonemes txt s2);
                  s4 = s3\<lparr>isAnimating := True, lastPhonemeTime := 0\<rparr>
              in case startPreparedAnimation delta s4 of
                   Inl e \<Rightarrow> Inl e
                 | Inr (duration, s5) \<Rightarrow> Inr (Some duration, s5))))"

text \<open>A timer that runs: the callback registered by the scheduling loop.\<close>

fun runEvent :: "event \<Rightarrow> controller \<Rightarrow> controller" where
  "runEvent (Apply phoneme) s = applyPhoneme phoneme s"
| "runEvent (Anticipate currentPhoneme nextPhoneme factor) s =
     applyAnticipatedPhoneme currentPhoneme (Some nextPhoneme) factor s"

text \<open>
  The pending timer at position \<open>k\<close> runs: it leaves the pending timers and its callback
  is called. No function of the source takes a timer away in another way: the handles that
  \<open>setTimeout\<close> returns are not kept and \<open>clearTimeout\<close> is not called.
\<close>

definition runTimer :: "nat \<Rightarrow> controller \<Rightarrow> controller" where
  "runTimer k s =
     (if k < length (timers s)
      then runEvent (snd (timers s ! k)) (s\<lparr>timers := take k (timers s) @ drop (Suc k) (timers s)\<rparr>)
      else s)"

text \<open>
  \<open>speak\<close> in two parts, around \<open>await this.getPhonemes(text)\<close>: \<open>speakBegin\<close> is the part
  before the await, for a text that is not empty, and \<open>speakResume\<close> the part after it.
  Between them the event loop runs callbacks; \<open>speakAwait\<close> is a call of \<open>speak\<close> during
  whose await the pending timers at the positions \<open>fired\<close> run, one after the other.
\<close>

definition speakBegin :: "string \<Rightarrow> controller \<Rightarrow> error \<times> controller + controller" where
  "speakBegin speed s =
     (case (if isAnimating s then stopAnimation s else Inr s) of
        Inl e \<Rightarrow> Inl e
      | Inr s1 \<Rightarrow>
          Inr (s1\<lparr>phonemeSpeedMs :=
                    (case map_of speechRate speed of Some r \<Rightarrow> r | None \<Rightarrow> 135)\<rparr>))"

definition speakResume ::
  "string \<Rightarrow> string list option \<Rightarrow> real \<Rightarrow> controller
     \<Rightarrow> error \<times> controller + real option \<times> controller" where
  "speakResume txt fetched delta s2 =
     (let s3 = (case fetched of
                  Some ps \<Rightarrow> s2\<lparr>preparedPhonemes := Some (preparedOf ps s2)\<rparr>
                | None \<Rightarrow> preparePhonemes txt s2);
          s4 = s3\<lparr>isAnimating := True, lastPhonemeTime := 0\<rparr>
      in case startPreparedAnimation delta s4 of
           Inl e \<Rightarrow> Inl e
         | Inr (duration, s5) \<Rightarrow> Inr (Some duration, s5))"

definition speakAwait ::
  "string \<Rightarrow> string \<Rightarrow> nat list \<Rightarrow> string list option \<Rightarrow> real \<Rightarrow> controller
     \<Rightarrow> error \<times> controller + real option \<times> controller" where
  "speakAwait txt speed fired fetched delta s =
     (if txt = [] then Inr (None, s)
      else
        (case speakBegin speed s of
           Inl e \<Rightarrow> Inl e
         | Inr s2 \<Rightarrow> speakResume txt fetched delta (fold runTimer fired s2)))"

section \<open>Properties of getPauseAtTime\<close>

definition covers :: "pause \<Rightarrow> real \<Rightarrow> bool" where
  "covers p t = (pause_start p \<le> t \<and> t \<le> pause_end p)"

lemma getPauseAtTime_None_iff:
  "getPauseAtTime ps t = None \<longleftrightarrow> (\<forall>p \<in> set ps. \<not> covers p t)"
  by (induction ps) (auto simp: covers_def)

lemma getPauseAtTime_Some_first:
  "getPauseAtTime ps t = Some p \<Longrightarrow>
     \<exists>i < length ps. ps ! i = p \<and> covers p t \<and> (\<forall>j < i. \<not> covers (ps ! j) t)"
proof (induction ps)
  case Nil
  then show ?case by simp
next
  case (Cons q qs)
  show ?case
  proof (cases "covers q t")
    case True
    with Cons.prems have "p = q" by (auto simp: covers_def split: if_splits)
    with True show ?thesis by (intro exI[of _ 0]) simp
  next
    case False
    with Cons.prems have "getPauseAtTime qs t = Some p"
      by (auto simp: covers_def split: if_splits)
    from Cons.IH[OF this] obtain i where i: "i < length qs" "qs ! i = p" "covers p t"
      "\<forall>j < i. \<not> covers (qs ! j) t" by blast
    have "\<forall>j < Suc i. \<not> covers ((q # qs) ! j) t"
      using False i(4) by (auto simp: less_Suc_eq_0_disj)
    with i show ?thesis by (intro exI[of _ "Suc i"]) simp
  qed
qed

text \<open>
  C8. For every interval sequence and every time \<open>t\<close>, \<open>getPauseAtTime\<close> returns none exactly
  when no interval has \<open>start \<le> t \<le> end\<close>, and otherwise returns the first interval of the
  sequence with \<open>start \<le> t \<le> end\<close>, both boundaries included.
\<close>

theorem getPauseAtTime_first_covering:
  "(getPauseAtTime ps t = None \<longleftrightarrow>
      (\<forall>p \<in> set ps. \<not> (pause_start p \<le> t \<and> t \<le> pause_end p))) \<and>
   (\<forall>p. getPauseAtTime ps t = Some p \<longrightarrow>
      (\<exists>i < length ps. ps ! i = p \<and> pause_start p \<le> t \<and> t \<le> pause_end p \<and>
         (\<forall>j < i. \<not> (pause_start (ps ! j) \<le> t \<and> t \<le> pause_end (ps ! j)))))"
  using getPauseAtTime_None_iff[of ps t] getPauseAtTime_Some_first[of ps t]
  unfolding covers_def by blast


definition examplePauses :: "pause list" where
  "examplePauses =
     [\<lparr>pause_start = 1, pause_end = 2, pause_duration = 1000, pause_type = ''PAUSE_LONG''\<rparr>,
      \<lparr>pause_start = 2, pause_end = 2.2, pause_duration = 200, pause_type = ''PAUSE_SHORT''\<rparr>]"

theorem getPauseAtTime_first_covering_witness:
  "getPauseAtTime examplePauses 2 = Some (examplePauses ! 0) \<and>
   getPauseAtTime examplePauses 2.2 = Some (examplePauses ! 1) \<and>
   getPauseAtTime examplePauses 2.3 = None \<and>
   (\<exists>i < length examplePauses. examplePauses ! i = examplePauses ! 0 \<and>
      pause_start (examplePauses ! 0) \<le> 2 \<and> 2 \<le> pause_end (examplePauses ! 0) \<and>
      (\<forall>j < i. \<not> (pause_start (examplePauses ! j) \<le> 2 \<and> 2 \<le> pause_end (examplePauses ! j))))"
proof -
  have a: "getPauseAtTime examplePauses 2 = Some (examplePauses ! 0)"
    by (simp add: examplePauses_def)
  have b: "getPauseAtTime examplePauses 2.2 = Some (examplePauses ! 1)"
    by (simp add: examplePauses_def)
  have c: "getPauseAtTime examplePauses 2.3 = None"
    by (simp add: examplePauses_def)
  from a b c getPauseAtTime_first_covering[of examplePauses 2] show ?thesis by blast
qed

section \<open>Properties of detectPauses\<close>


function windows :: "nat \<Rightarrow> 'a list \<Rightarrow> 'a list list" where
  "windows w xs = (if w = 0 \<or> xs = [] then [] else take w xs # windows w (drop w xs))"
  by pat_completeness auto
termination
  by (relation "measure (\<lambda>(w, xs). length xs)") auto

declare windows.simps [simp del]

definition rms :: "real list \<Rightarrow> real" where
  "rms ws = sqrt (sum_list (map (\<lambda>x. x * x) ws) / real (length ws))"

fun trackPauses ::
  "config \<Rightarrow> (nat \<Rightarrow> real) \<Rightarrow> nat \<Rightarrow> bool list \<Rightarrow> bool \<times> real \<times> pause list
     \<Rightarrow> bool \<times> real \<times> pause list" where
  "trackPauses cfg tm k [] st = st"
| "trackPauses cfg tm k (f # fs) (inPause, pauseStart, pauses) =
     trackPauses cfg tm (Suc k) fs
       (if f \<and> \<not> inPause then (True, tm k, pauses)
        else if \<not> f \<and> inPause then (False, pauseStart, recordPause cfg pauseStart (tm k) pauses)
        else (inPause, pauseStart, pauses))"

text \<open>With a window size of 0 the loop does not end on a buffer that has a sample.\<close>

lemma windowLoop_zero_window_aux:
  assumes "windowLoop cfg cd sr w i st = Some y"
  shows "\<not> (w = 0 \<and> i < length cd)"
proof (rule windowLoop.raw_induct[where P = "\<lambda>cfg cd sr w i st y. \<not> (w = 0 \<and> i < length cd)",
      OF _ assms])
  fix loop :: "config \<Rightarrow> real list \<Rightarrow> real \<Rightarrow> nat \<Rightarrow> nat \<Rightarrow> bool \<times> real \<times> pause list
     \<Rightarrow> (bool \<times> real \<times> pause list) option"
  fix cfg cd sr w i st y
  assume IH: "\<And>cfg cd sr w i st y. loop cfg cd sr w i st = Some y \<Longrightarrow> \<not> (w = 0 \<and> i < length cd)"
    and eq: "(if i < length cd
              then loop cfg cd sr w (i + w) (windowStep cfg cd sr w i st)
              else Some st) = Some y"
  show "\<not> (w = 0 \<and> i < length cd)"
  proof
    assume c: "w = 0 \<and> i < length cd"
    with eq have "loop cfg cd sr w (i + w) (windowStep cfg cd sr w i st) = Some y"
      by simp
    then have "\<not> (w = 0 \<and> i + w < length cd)" by (rule IH)
    with c show False by simp
  qed
qed

lemma windowLoop_zero_window:
  "i < length cd \<Longrightarrow> windowLoop cfg cd sr 0 i st = None"
  using windowLoop_zero_window_aux[of cfg cd sr 0 i st]
  by (cases "windowLoop cfg cd sr 0 i st") auto

lemma detectPauses_zero_window:
  "windowSizeOf (sampleRate buffer) = 0 \<Longrightarrow> channelData buffer \<noteq> [] \<Longrightarrow>
     detectPauses cfg buffer = None"
  by (simp add: detectPauses_def windowLoop_zero_window)

lemma map_nth_upt_take_drop:
  "e \<le> length cd \<Longrightarrow> map ((!) cd) [i..<e] = take (e - i) (drop i cd)"
  by (rule nth_equalityI) auto

lemma fold_add_sum_list:
  "fold (\<lambda>j s. s + f j) js a = a + sum_list (map f js)" for f :: "nat \<Rightarrow> real"
  by (induction js arbitrary: a) (auto simp: algebra_simps)

lemma sumSquaresOf_take_drop:
  assumes "e \<le> length cd"
  shows "sumSquaresOf cd i e = sum_list (map (\<lambda>x. x * x) (take (e - i) (drop i cd)))"
proof -
  have "sumSquaresOf cd i e = sum_list (map (\<lambda>j. cd ! j * cd ! j) [i..<e])"
    by (simp add: sumSquaresOf_def fold_add_sum_list)
  also have "map (\<lambda>j. cd ! j * cd ! j) [i..<e] = map (\<lambda>x. x * x) (map ((!) cd) [i..<e])"
    by simp
  also have "map ((!) cd) [i..<e] = take (e - i) (drop i cd)"
    using assms by (rule map_nth_upt_take_drop)
  finally show ?thesis .
qed

lemma windowRms_rms: "windowRms cd i w = rms (take w (drop i cd))"
proof -
  let ?e = "min (i + w) (length cd)"
  have t: "take (?e - i) (drop i cd) = take w (drop i cd)"
    by (cases "i + w \<le> length cd") (simp_all add: min_def)
  have l: "length (take w (drop i cd)) = ?e - i"
    by (auto simp: min_def)
  show ?thesis
    unfolding windowRms_def Let_def rms_def
    by (simp only: sumSquaresOf_take_drop[of ?e cd i, simplified] t l)
qed

lemma windowSilent_rms:
  "0 < w \<Longrightarrow> i < length cd \<Longrightarrow>
     windowSilent cfg cd i w \<longleftrightarrow> rms (take w (drop i cd)) < silenceThreshold cfg"
  by (simp add: windowSilent_def windowRms_rms min_def)

definition windowFlags :: "config \<Rightarrow> nat \<Rightarrow> real list \<Rightarrow> bool list" where
  "windowFlags cfg w cd = map (\<lambda>win. rms win < silenceThreshold cfg) (windows w cd)"

lemma windowLoop_trackPauses:
  assumes w: "0 < w"
  shows "windowLoop cfg cd sr w (k * w) st =
           Some (trackPauses cfg (\<lambda>j. fl (real (j * w) / sr)) k (windowFlags cfg w (drop (k * w) cd)) st)"
proof (induction "length cd - k * w" arbitrary: k st rule: less_induct)
  case less
  show ?case
  proof (cases "k * w < length cd")
    case False
    then have "windows w (drop (k * w) cd) = []"
      by (subst windows.simps) simp
    with False show ?thesis
      by (subst windowLoop.simps) (simp add: windowFlags_def)
  next
    case True
    obtain a b c where st: "st = (a, b, c)" by (cases st)
    have win: "windows w (drop (k * w) cd) =
                 take w (drop (k * w) cd) # windows w (drop (Suc k * w) cd)"
      using True w by (subst windows.simps) (simp add: add.commute)
    have "length cd - Suc k * w < length cd - k * w"
      using True w by simp
    from less[OF this]
    have IH: "windowLoop cfg cd sr w (k * w + w) st' =
        Some (trackPauses cfg (\<lambda>j. fl (real (j * w) / sr)) (Suc k) (windowFlags cfg w (drop (Suc k * w) cd)) st')" for st'
      by (simp add: add.commute)
    show ?thesis
      using True
      by (subst windowLoop.simps)
         (simp add: IH windowFlags_def win windowStep_def st windowSilent_rms[OF w True])
  qed
qed


function silentRuns :: "nat \<Rightarrow> bool list \<Rightarrow> (nat \<times> nat) list" where
  "silentRuns k [] = []"
| "silentRuns k (False # fs) = silentRuns (Suc k) fs"
| "silentRuns k (True # fs) =
     (let n = length (takeWhile id fs)
      in (k, k + Suc n) # silentRuns (k + Suc n) (dropWhile id fs))"
  by pat_completeness auto
termination
  by (relation "measure (\<lambda>(k, fs). length fs)")
     (auto simp: less_Suc_eq_le length_dropWhile_le)

definition classify :: "config \<Rightarrow> real \<Rightarrow> string" where
  "classify cfg d =
     (if d < shortPauseThreshold cfg then ''PAUSE_SHORT''
      else if d < mediumPauseThreshold cfg then ''PAUSE_MED''
      else ''PAUSE_LONG'')"

definition runPause :: "config \<Rightarrow> (nat \<Rightarrow> real) \<Rightarrow> real \<Rightarrow> nat \<Rightarrow> nat \<times> nat \<Rightarrow> pause" where
  "runPause cfg tm tEnd n r =
     (let s = tm (fst r);
          e = (if snd r = n then tEnd else tm (snd r));
          d = fl (fl (e - s) * 1000)
      in \<lparr>pause_start = s, pause_end = e, pause_duration = d, pause_type = classify cfg d\<rparr>)"

definition runsToPauses ::
  "config \<Rightarrow> (nat \<Rightarrow> real) \<Rightarrow> real \<Rightarrow> nat \<Rightarrow> (nat \<times> nat) list \<Rightarrow> pause list" where
  "runsToPauses cfg tm tEnd n rs =
     filter (\<lambda>p. minPauseDuration cfg \<le> pause_duration p) (map (runPause cfg tm tEnd n) rs)"

definition closeTrailing :: "config \<Rightarrow> real \<Rightarrow> bool \<times> real \<times> pause list \<Rightarrow> pause list" where
  "closeTrailing cfg tEnd st =
     (case st of (inPause, pauseStart, pauses) \<Rightarrow>
        if inPause then recordPause cfg pauseStart tEnd pauses else pauses)"

lemma recordPause_append:
  "recordPause cfg s e acc =
     acc @ filter (\<lambda>p. minPauseDuration cfg \<le> pause_duration p)
             [\<lparr>pause_start = s, pause_end = e, pause_duration = fl (fl (e - s) * 1000),
               pause_type = classify cfg (fl (fl (e - s) * 1000))\<rparr>]"
  by (simp add: recordPause_def classify_def Let_def)

lemma trackPauses_append:
  "trackPauses cfg tm k (xs @ ys) st =
     trackPauses cfg tm (k + length xs) ys (trackPauses cfg tm k xs st)"
proof (induction xs arbitrary: k st)
  case Nil
  then show ?case by simp
next
  case (Cons x xs)
  obtain a b c where "st = (a, b, c)" by (cases st)
  then show ?case by (simp add: Cons.IH)
qed

lemma trackPauses_all_silent:
  "\<forall>f \<in> set fs. f \<Longrightarrow> trackPauses cfg tm k fs (True, s, acc) = (True, s, acc)"
  by (induction fs arbitrary: k) auto

lemma trackPauses_close:
  "trackPauses cfg tm j (False # rest) (True, s, acc) =
   trackPauses cfg tm j (False # rest) (False, s, recordPause cfg s (tm j) acc)"
  by simp

lemma trackPauses_runs:
  "closeTrailing cfg tEnd (trackPauses cfg tm k fs (False, s0, acc)) =
     acc @ runsToPauses cfg tm tEnd (k + length fs) (silentRuns k fs)"
proof (induction k fs arbitrary: s0 acc rule: silentRuns.induct)
  case (1 k)
  then show ?case by (simp add: closeTrailing_def runsToPauses_def)
next
  case (2 k fs)
  then show ?case by simp
next
  case (3 k fs)
  define n where "n = length (takeWhile id fs)"
  define rest where "rest = dropWhile id fs"
  have fs: "fs = takeWhile id fs @ rest" by (simp add: rest_def)
  have len: "length fs = n + length rest"
    unfolding n_def by (subst fs) simp
  have allT: "\<forall>f \<in> set (takeWhile id fs). f"
    by (auto dest: set_takeWhileD)
  have step1: "trackPauses cfg tm k (True # fs) (False, s0, acc) =
                 trackPauses cfg tm (Suc k + n) rest (True, tm k, acc)"
  proof -
    have "trackPauses cfg tm k (True # fs) (False, s0, acc) =
            trackPauses cfg tm (Suc k) (takeWhile id fs @ rest) (True, tm k, acc)"
      using fs by simp
    also have "\<dots> = trackPauses cfg tm (Suc k + n) rest (True, tm k, acc)"
      by (simp only: trackPauses_append trackPauses_all_silent[OF allT] n_def)
    finally show ?thesis .
  qed
  have runs: "silentRuns k (True # fs) = (k, k + Suc n) # silentRuns (k + Suc n) rest"
    by (simp add: n_def rest_def Let_def)
  show ?case
  proof (cases rest)
    case Nil
    then show ?thesis
      unfolding step1 runs
      by (simp add: closeTrailing_def recordPause_append runsToPauses_def runPause_def len Let_def)
  next
    case (Cons f rest')
    then have "\<not> f"
      using hd_dropWhile[of id fs] by (simp add: rest_def)
    with Cons have rest: "rest = False # rest'" by simp
    have IH: "closeTrailing cfg tEnd (trackPauses cfg tm (k + Suc n) rest (False, s, acc')) =
                acc' @ runsToPauses cfg tm tEnd (k + Suc n + length rest) (silentRuns (k + Suc n) rest)"
      for s acc'
      using "3.IH"[of n s acc'] by (simp add: n_def rest_def)
    have "closeTrailing cfg tEnd (trackPauses cfg tm k (True # fs) (False, s0, acc)) =
          closeTrailing cfg tEnd (trackPauses cfg tm (k + Suc n) rest
             (False, tm k, recordPause cfg (tm k) (tm (k + Suc n)) acc))"
      unfolding step1 rest by simp
    also have "\<dots> = recordPause cfg (tm k) (tm (k + Suc n)) acc @
            runsToPauses cfg tm tEnd (k + Suc n + length rest) (silentRuns (k + Suc n) rest)"
      by (rule IH)
    finally have main: "closeTrailing cfg tEnd (trackPauses cfg tm k (True # fs) (False, s0, acc)) =
          recordPause cfg (tm k) (tm (k + Suc n)) acc @
            runsToPauses cfg tm tEnd (k + Suc n + length rest) (silentRuns (k + Suc n) rest)" .
    have N: "k + length (True # fs) = k + Suc n + length rest"
      by (simp add: len)
    have ne: "k + Suc n \<noteq> k + Suc n + length rest"
      by (simp add: rest)
    have "acc @ runsToPauses cfg tm tEnd (k + length (True # fs)) (silentRuns k (True # fs)) =
          recordPause cfg (tm k) (tm (k + Suc n)) acc @
            runsToPauses cfg tm tEnd (k + Suc n + length rest) (silentRuns (k + Suc n) rest)"
      unfolding runs N
      by (subst recordPause_append) (simp add: runsToPauses_def runPause_def rest Let_def)
    with main show ?thesis by simp
  qed
qed


lemma windows_Nil [simp]: "windows w [] = []"
  by (subst windows.simps) simp

lemma windows_step:
  "0 < w \<Longrightarrow> xs \<noteq> [] \<Longrightarrow> windows w xs = take w xs # windows w (drop w xs)"
  by (subst windows.simps) simp






text \<open>
  A maximal silent run of the marks \<open>fs\<close>: the windows \<open>a\<close> to \<open>b - 1\<close> are silent, the
  window before \<open>a\<close> (if any) and the window \<open>b\<close> (if any) are not. \<open>silentRuns\<close> lists
  exactly these runs.
\<close>

definition maximalSilentRun :: "bool list \<Rightarrow> nat \<Rightarrow> nat \<Rightarrow> bool" where
  "maximalSilentRun fs a b =
     (a < b \<and> b \<le> length fs \<and> (\<forall>i. a \<le> i \<and> i < b \<longrightarrow> fs ! i) \<and>
      (a = 0 \<or> \<not> fs ! (a - 1)) \<and> (b = length fs \<or> \<not> fs ! b))"

lemma maximal_Nil [simp]: "\<not> maximalSilentRun [] a b"
  by (simp add: maximalSilentRun_def)

lemma maximal_False:
  "maximalSilentRun (False # fs) a b \<longleftrightarrow>
     (\<exists>a' b'. a = Suc a' \<and> b = Suc b' \<and> maximalSilentRun fs a' b')"
proof
  assume m: "maximalSilentRun (False # fs) a b"
  then have "a \<noteq> 0" by (auto simp: maximalSilentRun_def)
  then obtain a' where a: "a = Suc a'" by (cases a) auto
  with m obtain b' where b: "b = Suc b'" by (cases b) (auto simp: maximalSilentRun_def)
  have "maximalSilentRun fs a' b'"
    using m unfolding maximalSilentRun_def a b
    apply (intro conjI)
        apply simp
       apply simp
      apply (metis Suc_le_mono Suc_less_eq nth_Cons_Suc)
     apply (cases a'; simp)
    apply simp
    done
  with a b show "\<exists>a' b'. a = Suc a' \<and> b = Suc b' \<and> maximalSilentRun fs a' b'" by blast
next
  assume "\<exists>a' b'. a = Suc a' \<and> b = Suc b' \<and> maximalSilentRun fs a' b'"
  then obtain a' b' where a: "a = Suc a'" and b: "b = Suc b'" and m: "maximalSilentRun fs a' b'"
    by blast
  show "maximalSilentRun (False # fs) a b"
    using m unfolding maximalSilentRun_def a b
    apply (intro conjI)
        apply simp
       apply simp
      apply (metis Suc_le_D Suc_le_mono Suc_less_eq nth_Cons_Suc)
     apply (cases a'; simp)
    apply simp
    done
qed


lemma maximal_True:
  fixes fs :: "bool list"
  defines "n \<equiv> length (takeWhile id fs)" and "rest \<equiv> dropWhile id fs"
  shows "maximalSilentRun (True # fs) a b \<longleftrightarrow>
     (a = 0 \<and> b = Suc n) \<or>
     (\<exists>a' b'. a = Suc n + a' \<and> b = Suc n + b' \<and> maximalSilentRun rest a' b')"
proof -
  let ?xs = "True # fs"
  have fs: "fs = takeWhile id fs @ rest" by (simp add: rest_def)
  have len: "length ?xs = Suc n + length rest"
    unfolding n_def by (subst fs) simp
  have low: "?xs ! i" if "i < Suc n" for i
  proof (cases i)
    case 0
    then show ?thesis by simp
  next
    case (Suc j)
    with that have j: "j < length (takeWhile id fs)" by (simp add: n_def)
    then have "fs ! j = takeWhile id fs ! j" by (rule takeWhile_nth[symmetric])
    moreover have "takeWhile id fs ! j \<in> set (takeWhile id fs)" using j by simp
    then have "takeWhile id fs ! j" by (auto dest: set_takeWhileD)
    ultimately show ?thesis by (simp add: Suc)
  qed
  have high: "?xs ! (Suc n + j) = rest ! j" for j
  proof -
    have "fs ! (n + j) = (takeWhile id fs @ rest) ! (n + j)" using fs by simp
    also have "\<dots> = rest ! j" by (simp add: nth_append n_def)
    finally show ?thesis by simp
  qed
  have stop: "\<not> rest ! 0" if "rest \<noteq> []"
    using that hd_dropWhile[of id fs] by (simp add: rest_def hd_conv_nth)
  show ?thesis
  proof
    assume m: "maximalSilentRun ?xs a b"
    then have ab: "a < b" and bl: "b \<le> Suc n + length rest"
      and run: "\<And>i. a \<le> i \<Longrightarrow> i < b \<Longrightarrow> ?xs ! i"
      and left: "a = 0 \<or> \<not> ?xs ! (a - 1)"
      and right: "b = Suc n + length rest \<or> \<not> ?xs ! b"
      unfolding maximalSilentRun_def len by auto
    show "(a = 0 \<and> b = Suc n) \<or>
          (\<exists>a' b'. a = Suc n + a' \<and> b = Suc n + b' \<and> maximalSilentRun rest a' b')"
    proof (cases "a < Suc n")
      case True
      have a0: "a = 0"
      proof (rule ccontr)
        assume "a \<noteq> 0"
        with left have "\<not> ?xs ! (a - 1)" by simp
        moreover have "?xs ! (a - 1)" using True by (intro low) simp
        ultimately show False by contradiction
      qed
      have "b = Suc n"
      proof (rule ccontr)
        assume ne: "b \<noteq> Suc n"
        show False
        proof (cases "b < Suc n")
          case True
          then have "?xs ! b" by (rule low)
          moreover have "b \<noteq> Suc n + length rest" using True by simp
          ultimately show False using right by simp
        next
          case False
          with ne have gt: "Suc n < b" by simp
          with bl have "rest \<noteq> []" by auto
          then have "\<not> rest ! 0" by (rule stop)
          then have "\<not> ?xs ! (Suc n)" using high[of 0] by simp
          moreover have "?xs ! (Suc n)" using a0 gt by (intro run) simp_all
          ultimately show False by contradiction
        qed
      qed
      with a0 show ?thesis by simp
    next
      case False
      define a' where "a' = a - Suc n"
      define b' where "b' = b - Suc n"
      have a: "a = Suc n + a'" using False by (simp add: a'_def)
      have b: "b = Suc n + b'" using False ab by (simp add: b'_def)
      have ab': "a' < b'" using ab a b by simp
      have bl': "b' \<le> length rest" using bl b by simp
      have run': "rest ! i" if "a' \<le> i" "i < b'" for i
        using run[of "Suc n + i"] that a b high[of i] by simp
      have ne: "rest \<noteq> []" using ab' bl' by auto
      have a'0: "a' \<noteq> 0"
      proof
        assume "a' = 0"
        with run'[of 0] ab' have "rest ! 0" by simp
        with stop[OF ne] show False by contradiction
      qed
      have left': "a' = 0 \<or> \<not> rest ! (a' - 1)"
      proof -
        from left a have "\<not> ?xs ! (Suc n + a' - 1)" by simp
        moreover have "Suc n + a' - 1 = Suc n + (a' - 1)" using a'0 by simp
        ultimately show ?thesis using high[of "a' - 1"] by simp
      qed
      have right': "b' = length rest \<or> \<not> rest ! b'"
        using right b high[of b'] by auto
      have "maximalSilentRun rest a' b'"
        unfolding maximalSilentRun_def using ab' bl' run' left' right' by blast
      with a b show ?thesis by blast
    qed
  next
    assume "(a = 0 \<and> b = Suc n) \<or>
          (\<exists>a' b'. a = Suc n + a' \<and> b = Suc n + b' \<and> maximalSilentRun rest a' b')"
    then show "maximalSilentRun ?xs a b"
    proof
      assume ab: "a = 0 \<and> b = Suc n"
      have "Suc n = Suc n + length rest \<or> \<not> ?xs ! (Suc n)"
      proof (cases "rest = []")
        case True
        then show ?thesis by simp
      next
        case False
        then have "\<not> rest ! 0" by (rule stop)
        then show ?thesis using high[of 0] by simp
      qed
      then show ?thesis
        unfolding maximalSilentRun_def len using ab low by auto
    next
      assume "\<exists>a' b'. a = Suc n + a' \<and> b = Suc n + b' \<and> maximalSilentRun rest a' b'"
      then obtain a' b' where a: "a = Suc n + a'" and b: "b = Suc n + b'"
        and m: "maximalSilentRun rest a' b'" by blast
      from m have ab': "a' < b'" and bl': "b' \<le> length rest"
        and run': "\<And>i. a' \<le> i \<Longrightarrow> i < b' \<Longrightarrow> rest ! i"
        and left': "a' = 0 \<or> \<not> rest ! (a' - 1)"
        and right': "b' = length rest \<or> \<not> rest ! b'"
        unfolding maximalSilentRun_def by auto
      have ne: "rest \<noteq> []" using ab' bl' by auto
      have a'0: "a' \<noteq> 0"
      proof
        assume "a' = 0"
        with run'[of 0] ab' have "rest ! 0" by simp
        with stop[OF ne] show False by contradiction
      qed
      have run: "?xs ! i" if "a \<le> i" "i < b" for i
      proof -
        from that a obtain j where i: "i = Suc n + j" and "a' \<le> j"
          by (metis le_Suc_ex add.assoc nat_add_left_cancel_le le_add1)
        then have "j < b'" using that b by simp
        with \<open>a' \<le> j\<close> have "rest ! j" by (rule run')
        then show ?thesis using high[of j] i by simp
      qed
      have left: "a = 0 \<or> \<not> ?xs ! (a - 1)"
      proof -
        have "a - 1 = Suc n + (a' - 1)" using a a'0 by simp
        moreover have "\<not> rest ! (a' - 1)" using left' a'0 by simp
        ultimately show ?thesis using high[of "a' - 1"] by simp
      qed
      have right: "b = length ?xs \<or> \<not> ?xs ! b"
        using right' b high[of b'] len by auto
      show ?thesis
        unfolding maximalSilentRun_def using ab' bl' a b run left right len by auto
    qed
  qed
qed

lemma silentRuns_maximal_offset:
  "(a, b) \<in> set (silentRuns k fs) \<longleftrightarrow>
     k \<le> a \<and> k \<le> b \<and> maximalSilentRun fs (a - k) (b - k)"
proof (induction k fs arbitrary: a b rule: silentRuns.induct)
  case (1 k)
  then show ?case by simp
next
  case (2 k fs)
  have "(k \<le> a \<and> k \<le> b \<and> (\<exists>a' b'. a - k = Suc a' \<and> b - k = Suc b' \<and> maximalSilentRun fs a' b'))
        \<longleftrightarrow> (Suc k \<le> a \<and> Suc k \<le> b \<and> maximalSilentRun fs (a - Suc k) (b - Suc k))"
    by (auto simp: Suc_diff_Suc) (metis Suc_diff_Suc diff_Suc_1 less_eq_Suc_le zero_less_Suc zero_less_diff)+
  then show ?case by (simp add: 2 maximal_False)
next
  case (3 k fs)
  define n where "n = length (takeWhile id fs)"
  have IH: "(a, b) \<in> set (silentRuns (k + Suc n) (dropWhile id fs)) \<longleftrightarrow>
     k + Suc n \<le> a \<and> k + Suc n \<le> b \<and>
     maximalSilentRun (dropWhile id fs) (a - (k + Suc n)) (b - (k + Suc n))" for a b
    using "3.IH"[of n a b] by (simp add: n_def)
  have shift: "(\<exists>a' b'. a - k = Suc n + a' \<and> b - k = Suc n + b' \<and>
                  maximalSilentRun (dropWhile id fs) a' b') \<and> k \<le> a \<and> k \<le> b \<longleftrightarrow>
        k + Suc n \<le> a \<and> k + Suc n \<le> b \<and>
        maximalSilentRun (dropWhile id fs) (a - (k + Suc n)) (b - (k + Suc n))"
  proof
    assume "(\<exists>a' b'. a - k = Suc n + a' \<and> b - k = Suc n + b' \<and>
                  maximalSilentRun (dropWhile id fs) a' b') \<and> k \<le> a \<and> k \<le> b"
    then obtain a' b' where "a - k = Suc n + a'" "b - k = Suc n + b'"
      "maximalSilentRun (dropWhile id fs) a' b'" "k \<le> a" "k \<le> b" by blast
    moreover from this have "a = k + Suc n + a'" "b = k + Suc n + b'" by arith+
    ultimately show "k + Suc n \<le> a \<and> k + Suc n \<le> b \<and>
        maximalSilentRun (dropWhile id fs) (a - (k + Suc n)) (b - (k + Suc n))"
      by simp
  next
    assume r: "k + Suc n \<le> a \<and> k + Suc n \<le> b \<and>
        maximalSilentRun (dropWhile id fs) (a - (k + Suc n)) (b - (k + Suc n))"
    then have "a - k = Suc n + (a - (k + Suc n))" "b - k = Suc n + (b - (k + Suc n))" by arith+
    with r show "(\<exists>a' b'. a - k = Suc n + a' \<and> b - k = Suc n + b' \<and>
                  maximalSilentRun (dropWhile id fs) a' b') \<and> k \<le> a \<and> k \<le> b"
      by (intro conjI exI[of _ "a - (k + Suc n)"] exI[of _ "b - (k + Suc n)"]) simp_all
  qed
  have first: "(a, b) = (k, k + Suc n) \<longleftrightarrow> k \<le> a \<and> k \<le> b \<and> a - k = 0 \<and> b - k = Suc n"
    by auto
  have "(a, b) \<in> set (silentRuns k (True # fs)) \<longleftrightarrow>
          (a, b) = (k, k + Suc n) \<or> (a, b) \<in> set (silentRuns (k + Suc n) (dropWhile id fs))"
    by (simp add: n_def Let_def)
  also have "\<dots> \<longleftrightarrow> k \<le> a \<and> k \<le> b \<and> maximalSilentRun (True # fs) (a - k) (b - k)"
    unfolding IH first maximal_True n_def[symmetric] using shift by blast
  finally show ?case .
qed

lemma silentRuns_maximal:
  "(a, b) \<in> set (silentRuns 0 fs) \<longleftrightarrow> maximalSilentRun fs a b"
  by (simp add: silentRuns_maximal_offset)

definition expectedPauses :: "config \<Rightarrow> audioBuffer \<Rightarrow> pause list" where
  "expectedPauses cfg buffer =
     (let cd = channelData buffer;
          sr = sampleRate buffer;
          w = windowSizeOf sr;
          flags = windowFlags cfg w cd
      in runsToPauses cfg (\<lambda>k. fl (real (k * w) / sr)) (fl (real (length cd) / sr))
           (length flags)
           (silentRuns 0 flags))"

lemma detectPauses_trackPauses:
  assumes "0 < windowSizeOf (sampleRate buffer)"
  shows "detectPauses cfg buffer =
     Some (closeTrailing cfg (fl (real (length (channelData buffer)) / sampleRate buffer))
       (trackPauses cfg
          (\<lambda>k. fl (real (k * windowSizeOf (sampleRate buffer)) / sampleRate buffer)) 0
          (windowFlags cfg (windowSizeOf (sampleRate buffer)) (channelData buffer)) (False, 0, [])))"
  using windowLoop_trackPauses[OF assms, of cfg "channelData buffer" "sampleRate buffer" 0 "(False, 0, [])"]
  by (simp add: detectPauses_def closeTrailing_def Let_def split: prod.splits)

text \<open>
  When the window size is positive, the output of \<open>detectPauses\<close> is the list of the maximal
  silent runs of windows, in order, that reach \<open>minPauseDuration\<close>. A run lasts from the
  start time of its first window to the start time of the window after it, a trailing run
  being closed at the buffer's end time; its duration is the one the source computes in
  double precision from these two rounded times, and it is classified by that duration. A
  window size of 0 (a sample rate below 100 Hz) is excluded: the loop of the source does
  not end there.
\<close>

lemma detectPauses_silent_runs:
  assumes "0 < windowSizeOf (sampleRate buffer)"
  shows "detectPauses cfg buffer = Some (expectedPauses cfg buffer) \<and>
         (\<forall>a b. (a, b) \<in> set (silentRuns 0
                     (windowFlags cfg (windowSizeOf (sampleRate buffer)) (channelData buffer)))
              \<longleftrightarrow>
              maximalSilentRun
                (windowFlags cfg (windowSizeOf (sampleRate buffer)) (channelData buffer)) a b)"
proof -
  have "detectPauses cfg buffer = Some (expectedPauses cfg buffer)"
    unfolding detectPauses_trackPauses[OF assms] expectedPauses_def Let_def
    by (simp add: trackPauses_runs)
  then show ?thesis by (simp add: silentRuns_maximal)
qed

subsection \<open>Runs whose length is exactly a threshold\<close>

text \<open>
  A buffer at 44100 Hz, where a window has 441 samples: \<open>before\<close> windows of amplitude 0.5,
  then \<open>silent\<close> windows of silence, then one window of amplitude 0.5.
\<close>

definition toneBuffer :: "nat \<Rightarrow> nat \<Rightarrow> audioBuffer" where
  "toneBuffer before silent =
     \<lparr>channelData =
        replicate (before * 441) 0.5 @ replicate (silent * 441) 0 @ replicate 441 0.5,
      sampleRate = 44100\<rparr>"

lemma binaryExponent_eq:
  assumes "2 powi e \<le> \<bar>x\<bar>" "\<bar>x\<bar> < 2 powi (e + 1)" "- 1022 \<le> e"
  shows "binaryExponent x = e"
proof -
  have pos: "0 < \<bar>x\<bar>"
    using assms(1) by (smt (verit) zero_less_power_int)
  have "2 powr real_of_int e \<le> \<bar>x\<bar>" "\<bar>x\<bar> < 2 powr real_of_int (e + 1)"
    using assms(1,2) by (simp_all only: powr_real_of_int' zero_le_numeral numeral_neq_zero simp_thms)
  then have "\<lfloor>log 2 \<bar>x\<bar>\<rfloor> = e"
    using pos by (subst floor_log_eq_powr_iff) simp_all
  with assms(3) show ?thesis by (simp add: binaryExponent_def)
qed

lemma roundHalfEven_eq:
  assumes "of_int n - 1 / 2 < y" "y < of_int n + 1 / 2"
  shows "roundHalfEven y = n"
proof -
  have "\<lfloor>y\<rfloor> = n \<or> \<lfloor>y\<rfloor> = n - 1"
    using assms by linarith
  then show ?thesis
  proof
    assume f: "\<lfloor>y\<rfloor> = n"
    then have "y - of_int n < 1 / 2" using assms by linarith
    with f show ?thesis by (simp add: roundHalfEven_def)
  next
    assume f: "\<lfloor>y\<rfloor> = n - 1"
    then have "y - of_int (n - 1) > 1 / 2" using assms by simp
    with f show ?thesis by (simp add: roundHalfEven_def)
  qed
qed

text \<open>
  The value of \<open>fl x\<close> from the exponent \<open>e\<close> of \<open>x\<close> and the integer \<open>n\<close> nearest to the
  significand of \<open>x\<close>.
\<close>

lemma fl_eval:
  assumes "2 powi e \<le> \<bar>x\<bar>" "\<bar>x\<bar> < 2 powi (e + 1)" "- 1022 \<le> e"
    and "of_int n - 1 / 2 < x / 2 powi (e - 52)" "x / 2 powi (e - 52) < of_int n + 1 / 2"
  shows "fl x = of_int n * 2 powi (e - 52)"
proof -
  have "x \<noteq> 0"
    using assms(1) by (smt (verit) zero_less_power_int)
  then show ?thesis
    by (simp add: fl_def binaryExponent_eq[OF assms(1-3)] roundHalfEven_eq[OF assms(4,5)])
qed

lemma fl_zero [simp]: "fl 0 = 0"
  by (simp add: fl_def)

text \<open>\<open>fl x\<close> is a multiple of the unit in the last place and lies within half a unit of \<open>x\<close>.\<close>

lemma roundHalfEven_near: "\<bar>of_int (roundHalfEven y) - y\<bar> \<le> 1 / 2"
  unfolding roundHalfEven_def Let_def by (auto split: if_splits)

lemma fl_nearest:
  "\<bar>fl x - x\<bar> \<le> 2 powi (binaryExponent x - 52) / 2"
proof (cases "x = 0")
  case True
  then show ?thesis by simp
next
  case False
  define u :: real where "u = 2 powi (binaryExponent x - 52)"
  have u: "0 < u" by (simp add: u_def)
  have "of_int (roundHalfEven (x / u)) * u - x = (of_int (roundHalfEven (x / u)) - x / u) * u"
    using u by (simp add: field_simps)
  then have "\<bar>fl x - x\<bar> = \<bar>of_int (roundHalfEven (x / u)) - x / u\<bar> * u"
    using False u by (simp add: fl_def u_def[symmetric] abs_mult)
  also have "\<dots> \<le> 1 / 2 * u"
    using roundHalfEven_near[of "x / u"] u by (intro mult_right_mono) simp_all
  finally show ?thesis by (simp add: u_def)
qed

lemma fl_value_1: "fl (7 / 100) = 1261007895663739 / 18014398509481984"
  using fl_eval[of "- 4" "7 / 100" 5044031582654956] by simp

lemma fl_value_2: "fl (1 / 10) = 3602879701896397 / 36028797018963968"
  using fl_eval[of "- 4" "1 / 10" 7205759403792794] by simp

lemma fl_value_3: "fl (7 / 50) = 1261007895663739 / 9007199254740992"
  using fl_eval[of "- 3" "7 / 50" 5044031582654956] by simp

lemma fl_value_4: "fl (2702159776422297 / 18014398509481984) = 2702159776422297 / 18014398509481984"
  using fl_eval[of "- 3" "2702159776422297 / 18014398509481984" 5404319552844594] by simp

lemma fl_value_5: "fl (5404319552844595 / 36028797018963968) = 5404319552844595 / 36028797018963968"
  using fl_eval[of "- 3" "5404319552844595 / 36028797018963968" 5404319552844595] by simp

lemma fl_value_6: "fl (11 / 50) = 7926335344172073 / 36028797018963968"
  using fl_eval[of "- 3" "11 / 50" 7926335344172073] by simp

lemma fl_value_7: "fl (9007199254740991 / 36028797018963968) = 9007199254740991 / 36028797018963968"
  using fl_eval[of "- 3" "9007199254740991 / 36028797018963968" 9007199254740991] by simp

lemma fl_value_8: "fl (29 / 100) = 5224175567749775 / 18014398509481984"
  using fl_eval[of "- 2" "29 / 100" 5224175567749775] by simp

lemma fl_value_9: "fl (7 / 20) = 3152519739159347 / 9007199254740992"
  using fl_eval[of "- 2" "7 / 20" 6305039478318694] by simp

lemma fl_value_10: "fl (337769972052787125 / 2251799813685248) = 5277655813324799 / 35184372088832"
  using fl_eval[of "7" "337769972052787125 / 2251799813685248" 5277655813324799] by simp

lemma fl_value_11: "fl (675539944105574375 / 4503599627370496) = 150"
  using fl_eval[of "7" "675539944105574375 / 4503599627370496" 5277655813324800] by simp

lemma fl_value_12: "fl (1125899906842623875 / 4503599627370496) = 8796093022207999 / 35184372088832"
  using fl_eval[of "7" "1125899906842623875 / 4503599627370496" 8796093022207999] by simp

lemmas fl_values =
  fl_value_1 fl_value_2 fl_value_3 fl_value_4 fl_value_5 fl_value_6
  fl_value_7 fl_value_8 fl_value_9 fl_value_10 fl_value_11 fl_value_12

lemma windows_replicate:
  "0 < w \<Longrightarrow> windows w (replicate (k * w) x @ ys) = replicate k (replicate w x) @ windows w ys"
proof (induction k)
  case 0
  then show ?case by simp
next
  case (Suc k)
  have "windows w (replicate w x @ (replicate (k * w) x @ ys)) =
          replicate w x # windows w (replicate (k * w) x @ ys)"
    using Suc.prems by (subst windows_step) simp_all
  with Suc show ?case by (simp add: replicate_add)
qed

lemma rms_replicate: "0 < w \<Longrightarrow> rms (replicate w x) = \<bar>x\<bar>"
  by (simp add: rms_def sum_list_replicate)

lemma windowFlags_toneBuffer:
  "windowFlags defaultConfig 441 (channelData (toneBuffer b n)) =
     replicate b False @ replicate n True @ [False]"
proof -
  have w: "windows 441 (replicate 441 (1 / 2 :: real)) = [replicate 441 (1 / 2)]"
    using windows_replicate[of 441 1 "1 / 2 :: real" "[]"] by simp
  have "windows 441 (channelData (toneBuffer b n)) =
          replicate b (replicate 441 (1 / 2)) @ replicate n (replicate 441 0) @
            [replicate 441 (1 / 2)]"
    by (simp add: toneBuffer_def windows_replicate w)
  then show ?thesis
    by (simp add: windowFlags_def rms_replicate defaultConfig_def)
qed

lemma silentRuns_block:
  "0 < n \<Longrightarrow> silentRuns k (replicate b False @ replicate n True @ [False]) = [(k + b, k + b + n)]"
proof (induction b arbitrary: k)
  case 0
  then obtain m where n: "n = Suc m" by (cases n) auto
  have "takeWhile id (replicate m True @ [False]) = replicate m True"
    "dropWhile id (replicate m True @ [False]) = [False]"
    by (induction m) simp_all
  then show ?case by (simp add: n Let_def)
next
  case (Suc b)
  then show ?case by simp
qed

lemma detectPauses_toneBuffer:
  assumes "0 < n"
  shows "detectPauses defaultConfig (toneBuffer b n) =
     Some (filter (\<lambda>p. 150 \<le> pause_duration p)
       [runPause defaultConfig (\<lambda>k. fl (real (k * 441) / 44100))
          (fl (real ((b + n + 1) * 441) / 44100)) (b + n + 1) (b, b + n)])"
proof -
  have w: "windowSizeOf (sampleRate (toneBuffer b n)) = 441"
    by (simp add: toneBuffer_def windowSizeOf_def)
  then have pos: "0 < windowSizeOf (sampleRate (toneBuffer b n))" by simp
  have "expectedPauses defaultConfig (toneBuffer b n) =
     filter (\<lambda>p. 150 \<le> pause_duration p)
       [runPause defaultConfig (\<lambda>k. fl (real (k * 441) / 44100))
          (fl (real ((b + n + 1) * 441) / 44100)) (b + n + 1) (b, b + n)]"
    unfolding expectedPauses_def Let_def w windowFlags_toneBuffer
    using silentRuns_block[OF assms, of 0 b]
    by (simp add: runsToPauses_def defaultConfig_def toneBuffer_def algebra_simps)
  with detectPauses_silent_runs[OF pos, of defaultConfig] show ?thesis by simp
qed

text \<open>
  C3 fails on runs whose length is exactly a threshold. At 44100 Hz a run of 15 silent
  windows lasts 150 ms. When it starts at window 14, the source computes its duration as
  \<open>(0.29 - 0.14) * 1000\<close>, which is 149.99999999999997 in double precision, and drops the
  run; when it starts at window 7, the duration \<open>(0.22 - 0.07) * 1000\<close> is 150 and the run is
  recorded. A run of 25 silent windows that starts at window 10 lasts 250 ms; its duration
  is computed as 249.99999999999997 and it is classified as a short pause, not as a medium
  one.
\<close>

theorem detectPauses_threshold_runs:
  "windowSizeOf (sampleRate (toneBuffer 14 15)) = 441 \<and>
   silentRuns 0 (windowFlags defaultConfig 441 (channelData (toneBuffer 14 15))) = [(14, 29)] \<and>
   real ((29 - 14) * 441) / sampleRate (toneBuffer 14 15) * 1000 = 150 \<and>
   detectPauses defaultConfig (toneBuffer 14 15) = Some [] \<and>
   detectPauses defaultConfig (toneBuffer 7 15) =
     Some [\<lparr>pause_start = fl 0.07, pause_end = fl 0.22, pause_duration = 150,
             pause_type = ''PAUSE_SHORT''\<rparr>] \<and>
   real ((35 - 10) * 441) / sampleRate (toneBuffer 10 25) * 1000 = 250 \<and>
   detectPauses defaultConfig (toneBuffer 10 25) =
     Some [\<lparr>pause_start = fl 0.1, pause_end = fl 0.35,
             pause_duration = 8796093022207999 / 35184372088832,
             pause_type = ''PAUSE_SHORT''\<rparr>]"
proof -
  have "silentRuns 0 (windowFlags defaultConfig 441 (channelData (toneBuffer 14 15))) = [(14, 29)]"
    unfolding windowFlags_toneBuffer using silentRuns_block[of 15 0 14] by simp
  moreover have "detectPauses defaultConfig (toneBuffer 14 15) = Some []"
    using detectPauses_toneBuffer[of 15 14]
    by (simp add: runPause_def classify_def defaultConfig_def fl_values)
  moreover have "detectPauses defaultConfig (toneBuffer 7 15) =
     Some [\<lparr>pause_start = fl 0.07, pause_end = fl 0.22, pause_duration = 150,
             pause_type = ''PAUSE_SHORT''\<rparr>]"
    using detectPauses_toneBuffer[of 15 7]
    by (simp add: runPause_def classify_def defaultConfig_def fl_values)
  moreover have "detectPauses defaultConfig (toneBuffer 10 25) =
     Some [\<lparr>pause_start = fl 0.1, pause_end = fl 0.35,
             pause_duration = 8796093022207999 / 35184372088832,
             pause_type = ''PAUSE_SHORT''\<rparr>]"
    using detectPauses_toneBuffer[of 25 10]
    by (simp add: runPause_def classify_def defaultConfig_def fl_values)
  ultimately show ?thesis
    by (simp add: toneBuffer_def windowSizeOf_def)
qed














section \<open>Properties of isProtectedEmotionShape\<close>


lemma take_eq_iff_prefix: "take (length t) s = t \<longleftrightarrow> (\<exists>ss. s = t @ ss)"
proof
  assume "take (length t) s = t"
  then have "s = t @ drop (length t) s" by (metis append_take_drop_id)
  then show "\<exists>ss. s = t @ ss" ..
next
  assume "\<exists>ss. s = t @ ss"
  then show "take (length t) s = t" by auto
qed

lemma includes_str_iff: "includes_str s t \<longleftrightarrow> (\<exists>ps ss. s = ps @ t @ ss)"
proof (induction s)
  case Nil
  then show ?case by auto
next
  case (Cons c s)
  have "(\<exists>ps ss. c # s = ps @ t @ ss) \<longleftrightarrow>
        (\<exists>ss. c # s = t @ ss) \<or> (\<exists>ps ss. s = ps @ t @ ss)"
  proof
    assume "\<exists>ps ss. c # s = ps @ t @ ss"
    then obtain ps ss where eq: "c # s = ps @ t @ ss" by blast
    show "(\<exists>ss. c # s = t @ ss) \<or> (\<exists>ps ss. s = ps @ t @ ss)"
    proof (cases ps)
      case Nil
      with eq show ?thesis by auto
    next
      case (Cons p ps')
      with eq have "s = ps' @ t @ ss" by simp
      then show ?thesis by blast
    qed
  next
    assume "(\<exists>ss. c # s = t @ ss) \<or> (\<exists>ps ss. s = ps @ t @ ss)"
    then show "\<exists>ps ss. c # s = ps @ t @ ss"
    proof
      assume "\<exists>ss. c # s = t @ ss"
      then obtain ss where "c # s = [] @ t @ ss" by auto
      then show ?thesis by blast
    next
      assume "\<exists>ps ss. s = ps @ t @ ss"
      then obtain ps ss where "c # s = (c # ps) @ t @ ss" by auto
      then show ?thesis by blast
    qed
  qed
  with Cons show ?case
    by (simp only: includes_str.simps take_eq_iff_prefix)
qed

lemma protected_entries_nonempty: "[] \<notin> set protectedEmotionShapes"
  by (simp add: protectedEmotionShapes_def)

text \<open>
  C10. \<open>isProtectedEmotionShape\<close> holds for a name exactly when the lowercased name contains
  the lowercased form of some entry of \<open>protectedEmotionShapes\<close> as a substring; it is false
  for \<open>null\<close>, \<open>undefined\<close> and the empty name.
\<close>

theorem isProtectedEmotionShape_substring:
  "(\<forall>n. isProtectedEmotionShape (Some n) \<longleftrightarrow>
        (\<exists>p \<in> set protectedEmotionShapes.
           \<exists>ps ss. toLowerCase n = ps @ toLowerCase p @ ss)) \<and>
   \<not> isProtectedEmotionShape None \<and> \<not> isProtectedEmotionShape (Some [])"
proof -
  have "isProtectedEmotionShape (Some n) \<longleftrightarrow>
        (\<exists>p \<in> set protectedEmotionShapes. \<exists>ps ss. toLowerCase n = ps @ toLowerCase p @ ss)" for n
  proof (cases "n = []")
    case True
    have "toLowerCase p \<noteq> []" if "p \<in> set protectedEmotionShapes" for p
      using that protected_entries_nonempty by (auto simp: toLowerCase_def)
    with True show ?thesis
      by (auto simp: isProtectedEmotionShape_def toLowerCase_def)
  next
    case False
    then show ?thesis
      by (simp add: isProtectedEmotionShape_def list_ex_iff includes_str_iff)
  qed
  then show ?thesis by (simp add: isProtectedEmotionShape_def)
qed

text \<open>The lowercased entries of \<open>protectedEmotionShapes\<close>, computed once.\<close>

definition loweredShapes :: "string list" where
  "loweredShapes =
    [''blendshapes_main.happy_m'', ''blendshapes_eyelashes.happy_m'',
     ''blendshapes_eyebrows.happy_m'', ''blendshapes_beard.happy_m'',
     ''blendshapes_moustache.happy_m'', ''blendshapes_mouth.happy_m'',
     ''blendshapes_main.sad_m'', ''blendshapes_eyelashes.sad_m'',
     ''blendshapes_eyebrows.sad_m'', ''blendshapes_beard.sad_m'',
     ''blendshapes_moustache.sad_m'', ''blendshapes_main.angry_m'',
     ''blendshapes_eyelashes.angry_m'', ''blendshapes_eyebrows.angry_m'',
     ''blendshapes_beard.angry_m'', ''blendshapes_moustache.angry_m'',
     ''blendshapes_main.surprise_m'', ''blendshapes_eyelashes.surprise_m'',
     ''blendshapes_eyebrows.surprise_m'', ''blendshapes_beard.surprise_m'',
     ''blendshapes_moustache.surprise_m'', ''blendshapes_mouth.surprise_m'',
     ''blendshapes_main.fear_m'', ''blendshapes_eyelashes.fear_m'',
     ''blendshapes_eyebrows.fear_m'', ''blendshapes_beard.fear_m'',
     ''blendshapes_moustache.fear_m'', ''blendshapes_mouth.fear_m'',
     ''blendshape_main.happy'', ''blendshape_eyelashes.happy'', ''blendshape_eyebrows.happy'',
     ''blendshape_beard.happy'', ''blendshape_main.sad'', ''blendshape_eyelashes.sad'',
     ''blendshape_eyebrows.sad'', ''blendshape_beard.sad'', ''blendshape_main.angry'',
     ''blendshape_eyelashes.angry'', ''blendshape_eyebrows.angry'',
     ''blendshape_beard.angry'', ''blendshape_main.surprise'',
     ''blendshape_eyelashes.surprise'', ''blendshape_eyebrows.surprise'',
     ''blendshape_beard.surprise'', ''blendshape_main.fear'', ''blendshape_eyelashes.fear'',
     ''blendshape_eyebrows.fear'', ''blendshape_beard.fear'', ''blendshape_mouth.fear'',
     ''blendshape_eyer.eyelookout_r'', ''blendshape_eyer.eyelookout_r'',
     ''blendshape_eyel.eyelookin_l'', ''blendshape_eyel.eyelookout_l'']"

lemma lowered_protected: "map toLowerCase protectedEmotionShapes = loweredShapes"
  by code_simp

lemma isProtected_lowered:
  "isProtectedEmotionShape (Some n) =
     (n \<noteq> [] \<and> list_ex (includes_str (toLowerCase n)) loweredShapes)"
  unfolding lowered_protected[symmetric]
  by (simp add: isProtectedEmotionShape_def list_ex_iff)

lemmas isProtected_eval =
  isProtected_lowered loweredShapes_def toLowerCase_def toLowerChar_def

lemma protected_example: "isProtectedEmotionShape (Some ''Head.BLENDSHAPE_main.HAPPY_copy'')"
  by (simp add: isProtected_eval)

lemma unprotected_example: "\<not> isProtectedEmotionShape (Some ''BlendShape_Main.MouthOpen'')"
  by (simp add: isProtected_eval)

theorem isProtectedEmotionShape_substring_witness:
  "isProtectedEmotionShape (Some ''Head.BLENDSHAPE_main.HAPPY_copy'') \<and>
   (\<exists>p \<in> set protectedEmotionShapes.
      \<exists>ps ss. toLowerCase ''Head.BLENDSHAPE_main.HAPPY_copy'' = ps @ toLowerCase p @ ss) \<and>
   \<not> isProtectedEmotionShape (Some ''BlendShape_Main.MouthOpen'') \<and>
   \<not> (\<exists>p \<in> set protectedEmotionShapes.
      \<exists>ps ss. toLowerCase ''BlendShape_Main.MouthOpen'' = ps @ toLowerCase p @ ss)"
  using isProtectedEmotionShape_substring protected_example unprotected_example by blast

section \<open>Properties of the controller\<close>


subsection \<open>Closed forms of the reset loops\<close>

definition deleteUnprotected :: "string list \<Rightarrow> (string \<times> real) list \<Rightarrow> (string \<times> real) list" where
  "deleteUnprotected names al =
     fold (\<lambda>name tg. if \<not> isProtected name then AList.delete name tg else tg) names al"

definition zeroControls ::
  "(string \<times> control option) list \<Rightarrow> (string \<times> real) list \<Rightarrow> (string \<times> real) list" where
  "zeroControls controls sk =
     fold (\<lambda>(name, co) sk.
            case co of
              None \<Rightarrow> sk
            | Some c \<Rightarrow>
                if control_mesh c \<and> control_index c \<noteq> None \<and> \<not> isProtected name
                then AList.update name 0 sk else sk)
       controls sk"

definition controlsPresent :: "controller \<Rightarrow> bool" where
  "controlsPresent s = list_all (\<lambda>p. snd p \<noteq> None) (blendShapeControls s)"

lemma reset_fold_fields:
  "fold (\<lambda>name s.
           if \<not> isProtected name
           then s\<lparr>targetBlendShapes := AList.delete name (targetBlendShapes s),
                  currentBlendShapes := AList.delete name (currentBlendShapes s)\<rparr>
           else s) names s =
   s\<lparr>targetBlendShapes := deleteUnprotected names (targetBlendShapes s),
     currentBlendShapes := deleteUnprotected names (currentBlendShapes s)\<rparr>"
  by (induction names arbitrary: s) (simp_all add: deleteUnprotected_def)

lemma resetControls_present:
  "list_all (\<lambda>p. snd p \<noteq> None) controls \<Longrightarrow>
     resetControls controls sk = Inr (zeroControls controls sk)"
proof (induction controls arbitrary: sk)
  case Nil
  then show ?case by (simp add: zeroControls_def)
next
  case (Cons p controls)
  obtain name co where p: "p = (name, co)" by (cases p)
  with Cons.prems obtain c where co: "co = Some c" by auto
  from Cons.prems have "list_all (\<lambda>p. snd p \<noteq> None) controls" by simp
  from Cons.IH[OF this] show ?case
    by (simp add: p co zeroControls_def)
qed

lemma resetControls_missing:
  "\<not> list_all (\<lambda>p. snd p \<noteq> None) controls \<Longrightarrow>
     \<exists>sk'. resetControls controls sk = Inl (TypeError, sk')"
proof (induction controls arbitrary: sk)
  case Nil
  then show ?case by simp
next
  case (Cons p controls)
  obtain name co where p: "p = (name, co)" by (cases p)
  show ?case
  proof (cases co)
    case None
    then show ?thesis by (simp add: p)
  next
    case (Some c)
    with Cons.prems p have "\<not> list_all (\<lambda>p. snd p \<noteq> None) controls" by simp
    from Cons.IH[OF this] show ?thesis by (simp add: p Some)
  qed
qed

lemma resetBlendShapes_present:
  assumes "controlsPresent s"
  shows "resetBlendShapes s =
     Inr (s\<lparr>targetBlendShapes :=
               deleteUnprotected (map fst (targetBlendShapes s)) (targetBlendShapes s),
             currentBlendShapes :=
               deleteUnprotected (map fst (targetBlendShapes s)) (currentBlendShapes s),
             sink := zeroControls (blendShapeControls s) (sink s)\<rparr>)"
  using assms
  by (simp add: resetBlendShapes_def reset_fold_fields controlsPresent_def resetControls_present)

lemma stopAnimation_present:
  assumes "controlsPresent s"
  shows "stopAnimation s =
     Inr (s\<lparr>isAnimating := False, pauseUpdateInterval := False, currentAudio := False,
             detectedPauses := [], usingAudioBasedPauses := False, lastAppliedPauseId := None,
             currentlyInPause := False,
             targetBlendShapes :=
               deleteUnprotected (map fst (targetBlendShapes s)) (targetBlendShapes s),
             currentBlendShapes :=
               deleteUnprotected (map fst (targetBlendShapes s)) (currentBlendShapes s),
             sink := zeroControls (blendShapeControls s) (sink s)\<rparr>)"
proof -
  have "controlsPresent (clearAudioSource (s\<lparr>isAnimating := False\<rparr>))"
    using assms by (simp add: controlsPresent_def clearAudioSource_def)
  from resetBlendShapes_present[OF this] show ?thesis
    by (simp add: stopAnimation_def clearAudioSource_def)
qed

lemma stopAnimation_missing:
  assumes "\<not> controlsPresent s"
  shows "\<exists>s'. stopAnimation s = Inl (TypeError, s')"
proof -
  let ?s0 = "clearAudioSource (s\<lparr>isAnimating := False\<rparr>)"
  let ?s1 = "?s0\<lparr>targetBlendShapes :=
                   deleteUnprotected (map fst (targetBlendShapes ?s0)) (targetBlendShapes ?s0),
                 currentBlendShapes :=
                   deleteUnprotected (map fst (targetBlendShapes ?s0)) (currentBlendShapes ?s0)\<rparr>"
  have "\<not> list_all (\<lambda>p. snd p \<noteq> None) (blendShapeControls ?s1)"
    using assms by (simp add: controlsPresent_def clearAudioSource_def)
  from resetControls_missing[OF this, of "sink ?s1"]
  obtain sk' where "resetControls (blendShapeControls ?s1) (sink ?s1) = Inl (TypeError, sk')" ..
  then show ?thesis
    by (simp add: stopAnimation_def resetBlendShapes_def reset_fold_fields)
qed


text \<open>A frame changes nothing but the current weights and the sink.\<close>

definition otherFields where
  "otherFields s =
     (blendShapeControls s, isAnimating s, usingAudioBasedPauses s, currentAudio s,
      pauseUpdateInterval s, detectedPauses s, analyzerPauses s, lastAppliedPauseId s,
      currentlyInPause s, phonemeOffsetMs s, transitionDuration s, phonemeSpeedMs s,
      endDelayMs s, lastPhonemeTime s, anticipation_enabled s, anticipation_factor s,
      anticipation_offsetFactor s, preparedPhonemes s, targetBlendShapes s, timers s)"

lemma fold_invariant:
  assumes "\<And>x s. g (f x s) = g s"
  shows "g (fold f xs s) = g s"
  using assms by (induction xs arbitrary: s) simp_all

lemma interpolate_otherFields: "otherFields (interpolateBlendShapes delta s) = otherFields s"
  unfolding interpolateBlendShapes_def
  by (rule fold_invariant) (auto simp: otherFields_def Let_def split: option.splits if_splits)

lemma animate_otherFields: "otherFields (animate delta s) = otherFields s"
  by (simp add: animate_def interpolate_otherFields)

lemma animate_fields:
  "timers (animate delta s) = timers s"
  "lastPhonemeTime (animate delta s) = lastPhonemeTime s"
  "isAnimating (animate delta s) = isAnimating s"
  "pauseUpdateInterval (animate delta s) = pauseUpdateInterval s"
  "currentAudio (animate delta s) = currentAudio s"
  "lastAppliedPauseId (animate delta s) = lastAppliedPauseId s"
  "currentlyInPause (animate delta s) = currentlyInPause s"
  using animate_otherFields[of delta s] by (simp_all add: otherFields_def)

subsection \<open>Scheduling\<close>

fun isApplyTimer :: "real \<times> event \<Rightarrow> bool" where
  "isApplyTimer (t, Apply p) = True"
| "isApplyTimer (t, Anticipate c n f) = False"

lemma scheduleLoop_append:
  "scheduleLoop sp en f off t ps (ts, l) =
     (ts @ fst (scheduleLoop sp en f off t ps ([], l)), snd (scheduleLoop sp en f off t ps ([], l)))"
proof (induction ps arbitrary: t ts l)
  case Nil
  then show ?case by simp
next
  case (Cons p ps)
  define new where "new = (t, Apply p) #
     (case ps of [] \<Rightarrow> [] | n # _ \<Rightarrow>
        if en \<and> n \<noteq> [] then [(t + off, Anticipate p n f)] else [])"
  define t' where "t' = t + sp * durationMultiplierOf p"
  have step: "scheduleLoop sp en f off t (p # ps) (us, l) =
                scheduleLoop sp en f off t' ps (us @ new, t')" for us l
  proof -
    have ts2: "(case (case ps of [] \<Rightarrow> None | n # _ \<Rightarrow> Some n) of
                  None \<Rightarrow> us @ [(t, Apply p)]
                | Some n \<Rightarrow>
                    if en \<and> n \<noteq> []
                    then (us @ [(t, Apply p)]) @ [(t + off, Anticipate p n f)]
                    else us @ [(t, Apply p)]) = us @ new"
      by (cases ps) (simp_all add: new_def)
    show ?thesis
      by (simp only: scheduleLoop.simps Let_def ts2 t'_def)
  qed
  have a: "scheduleLoop sp en f off t' ps (ts @ new, t') =
             ((ts @ new) @ fst (scheduleLoop sp en f off t' ps ([], t')),
              snd (scheduleLoop sp en f off t' ps ([], t')))"
    by (rule Cons.IH)
  have b: "scheduleLoop sp en f off t' ps ([] @ new, t') =
             (([] @ new) @ fst (scheduleLoop sp en f off t' ps ([], t')),
              snd (scheduleLoop sp en f off t' ps ([], t')))"
    by (rule Cons.IH)
  show ?case
    unfolding step a b by simp
qed


lemma stop_or_keep:
  assumes "controlsPresent s"
  shows "\<exists>s1. (if isAnimating s then stopAnimation s else Inr s) = Inr s1 \<and>
           timers s1 = timers s \<and> phonemeSpeedMs s1 = phonemeSpeedMs s \<and>
           phonemeOffsetMs s1 = phonemeOffsetMs s \<and> endDelayMs s1 = endDelayMs s \<and>
           preparedPhonemes s1 = preparedPhonemes s \<and>
           blendShapeControls s1 = blendShapeControls s \<and>
           anticipation_enabled s1 = anticipation_enabled s \<and>
           anticipation_factor s1 = anticipation_factor s \<and>
           anticipation_offsetFactor s1 = anticipation_offsetFactor s \<and>
           (isAnimating s \<longrightarrow> \<not> pauseUpdateInterval s1 \<and> \<not> currentAudio s1)"
  by (simp add: stopAnimation_present[OF assms])

lemma scenario_schedule:
  "scheduleLoop 135 en f off 50 [''AAA'', ''PAUSE_MED'', ''SSS''] ([], l) =
     ((50, Apply ''AAA'') #
        (if en then [(50 + off, Anticipate ''AAA'' ''PAUSE_MED'' f)] else []) @
      (225.5, Apply ''PAUSE_MED'') #
        (if en then [(225.5 + off, Anticipate ''PAUSE_MED'' ''SSS'' f)] else []) @
      [(630.5, Apply ''SSS'')], 752)"
  by (simp add: durationMultiplierOf_def phonemeDurations_def Let_def)

text \<open>
  C5. With the prepared phonemes \<open>[AAA, PAUSE_MED, SSS]\<close>, \<open>phonemeSpeedMs = 135\<close>,
  \<open>phonemeOffsetMs = 50\<close>, \<open>endDelayMs = 550\<close> and the multipliers of \<open>phonemeDurations\<close>
  (1.3, 3.0 and 0.9), \<open>startPreparedAnimation\<close> registers, after the timers already pending,
  \<open>Apply AAA\<close> at 50 ms, \<open>Apply PAUSE_MED\<close> at 225.5 ms and \<open>Apply SSS\<close> at 630.5 ms (and
  anticipation timers between them when anticipation is enabled), leaves 752 in
  \<open>lastPhonemeTime\<close> and returns 1302. Every control is an object, so that the
  \<open>stopAnimation\<close> it may call returns.
\<close>

theorem startPreparedAnimation_scenario:
  assumes present: "controlsPresent s"
    and pp: "preparedPhonemes s = Some pp"
    and ph: "phonemes pp = [''AAA'', ''PAUSE_MED'', ''SSS'']"
    and sp: "phonemeSpeedMs s = 135"
    and off: "phonemeOffsetMs s = 50"
    and ed: "endDelayMs s = 550"
  shows "\<exists>s' new. startPreparedAnimation delta s = Inr (1302, s') \<and>
           lastPhonemeTime s' = 752 \<and>
           timers s' = timers s @ new \<and>
           filter isApplyTimer new =
             [(50, Apply ''AAA''), (225.5, Apply ''PAUSE_MED''), (630.5, Apply ''SSS'')]"
proof -
  from stop_or_keep[OF present] obtain s1 where
    s1: "(if isAnimating s then stopAnimation s else Inr s) = Inr s1"
    and f: "timers s1 = timers s" "phonemeSpeedMs s1 = phonemeSpeedMs s"
      "phonemeOffsetMs s1 = phonemeOffsetMs s" "endDelayMs s1 = endDelayMs s"
    by blast
  define en where "en = anticipationEnabled pp"
  define new where "new = fst (scheduleLoop 135 en (anticipationFactor pp) (anticipationOffset pp) 50
       [''AAA'', ''PAUSE_MED'', ''SSS''] ([], 0))"
  have loop: "scheduleLoop 135 en (anticipationFactor pp) (anticipationOffset pp) 50
       [''AAA'', ''PAUSE_MED'', ''SSS''] (timers s, 0) = (timers s @ new, 752)"
    unfolding new_def
    by (subst scheduleLoop_append) (simp only: scenario_schedule snd_conv)
  define s3 where "s3 = s1\<lparr>isAnimating := True, timers := timers s @ new,
                         lastPhonemeTime := 752, preparedPhonemes := None\<rparr>"
  have "startPreparedAnimation delta s = Inr (1302, animate delta s3)"
    unfolding startPreparedAnimation_def pp s1
    by (simp add: f sp off ed ph loop en_def[symmetric] s3_def del: scheduleLoop.simps)
  moreover have "lastPhonemeTime (animate delta s3) = 752"
    "timers (animate delta s3) = timers s @ new"
    by (simp_all add: animate_fields s3_def)
  moreover have "filter isApplyTimer new =
             [(50, Apply ''AAA''), (225.5, Apply ''PAUSE_MED''), (630.5, Apply ''SSS'')]"
    unfolding new_def scenario_schedule by simp
  ultimately show ?thesis by simp
qed


definition jawControl :: control where
  "jawControl = \<lparr>control_mesh = True, control_index = Some 0, control_name = ''jaw''\<rparr>"

definition scenarioState :: controller where
  "scenarioState =
     (newController [(''jaw'', Some jawControl)])
       \<lparr>isAnimating := True,
        preparedPhonemes :=
          Some \<lparr>phonemes = [''AAA'', ''PAUSE_MED'', ''SSS''], anticipationEnabled = False,
                anticipationFactor = 0.35, anticipationOffset = 81\<rparr>\<rparr>"

theorem startPreparedAnimation_scenario_witness:
  "controlsPresent scenarioState \<and>
   phonemeSpeedMs scenarioState = 135 \<and> phonemeOffsetMs scenarioState = 50 \<and>
   endDelayMs scenarioState = 550 \<and>
   (\<exists>s' new. startPreparedAnimation 0 scenarioState = Inr (1302, s') \<and>
           lastPhonemeTime s' = 752 \<and>
           timers s' = timers scenarioState @ new \<and>
           filter isApplyTimer new =
             [(50, Apply ''AAA''), (225.5, Apply ''PAUSE_MED''), (630.5, Apply ''SSS'')])"
proof -
  have a: "controlsPresent scenarioState"
    by (simp add: scenarioState_def newController_def controlsPresent_def)
  have b: "preparedPhonemes scenarioState =
          Some \<lparr>phonemes = [''AAA'', ''PAUSE_MED'', ''SSS''], anticipationEnabled = False,
                anticipationFactor = 0.35, anticipationOffset = 81\<rparr>"
    by (simp add: scenarioState_def)
  have c: "phonemeSpeedMs scenarioState = 135" "phonemeOffsetMs scenarioState = 50"
    "endDelayMs scenarioState = 550"
    by (simp_all add: scenarioState_def newController_def)
  from startPreparedAnimation_scenario[OF a b _ c, of 0] a c show ?thesis by simp
qed

subsection \<open>Anticipation into and out of a pause\<close>

lemma pause_nonempty: "isPausePhoneme p \<Longrightarrow> p \<noteq> []"
  by (auto simp: isPausePhoneme_def pauseNames_def)

lemma scale_fold_map_of:
  assumes "distinct names"
  shows "map_of (fold (\<lambda>name tg.
                    if P name
                    then (let currentValue = getOrZero tg name
                          in AList.update name (currentValue * c) tg)
                    else tg) names tg) n =
         (if n \<in> set names \<and> P n then Some (getOrZero tg n * c) else map_of tg n)"
proof -
  define F where "F = (\<lambda>name tg.
                    if P name
                    then (let currentValue = getOrZero tg name
                          in AList.update name (currentValue * c) tg)
                    else tg)"
  have "map_of (fold F names tg) n =
         (if n \<in> set names \<and> P n then Some (getOrZero tg n * c) else map_of tg n)"
    using assms
  proof (induction names arbitrary: tg)
    case Nil
    then show ?case by simp
  next
    case (Cons x xs)
    have other: "map_of (F x tg) m = map_of tg m" if "m \<noteq> x" for m
      using that by (simp add: F_def update_conv' Let_def)
    have same: "map_of (F x tg) x = (if P x then Some (getOrZero tg x * c) else map_of tg x)"
      by (simp add: F_def update_conv' Let_def)
    have IH: "map_of (fold F xs (F x tg)) n =
         (if n \<in> set xs \<and> P n then Some (getOrZero (F x tg) n * c) else map_of (F x tg) n)"
      using Cons.IH[of "F x tg"] Cons.prems by simp
    show ?case
    proof (cases "n = x")
      case True
      with Cons.prems have "n \<notin> set xs" by simp
      with IH True same show ?thesis by simp
    next
      case False
      with IH other[OF False] show ?thesis
        by (simp add: getOrZero_def)
    qed
  qed
  then show ?thesis by (simp add: F_def)
qed

text \<open>
  C6. When the next phoneme is a pause, \<open>applyAnticipatedPhoneme\<close> multiplies the target
  weight of every channel of \<open>blendShapeControls\<close> that is not protected by \<open>1 - factor\<close> (a
  channel without a target counts as 0), leaves every other target as it is and changes
  nothing but the targets. When the current phoneme is a pause and the next one is not, it
  changes nothing at all. The keys of the object \<open>blendShapeControls\<close> are distinct.
\<close>

theorem anticipate_pause:
  assumes "distinct (map fst (blendShapeControls s))"
  shows "(isPausePhoneme nextP \<longrightarrow>
           (\<forall>n. map_of (targetBlendShapes (applyAnticipatedPhoneme cur (Some nextP) f s)) n =
                  (if n \<in> fst ` set (blendShapeControls s) \<and> \<not> isProtected n
                   then Some (getOrZero (targetBlendShapes s) n * (1 - f))
                   else map_of (targetBlendShapes s) n)) \<and>
           applyAnticipatedPhoneme cur (Some nextP) f s =
             s\<lparr>targetBlendShapes :=
                 targetBlendShapes (applyAnticipatedPhoneme cur (Some nextP) f s)\<rparr>) \<and>
         (isPausePhoneme cur \<and> \<not> isPausePhoneme nextP \<longrightarrow>
            applyAnticipatedPhoneme cur (Some nextP) f s = s)"
proof (intro conjI impI)
  assume p: "isPausePhoneme nextP"
  then have ne: "nextP \<noteq> []" by (rule pause_nonempty)
  show "\<forall>n. map_of (targetBlendShapes (applyAnticipatedPhoneme cur (Some nextP) f s)) n =
                  (if n \<in> fst ` set (blendShapeControls s) \<and> \<not> isProtected n
                   then Some (getOrZero (targetBlendShapes s) n * (1 - f))
                   else map_of (targetBlendShapes s) n)"
    using scale_fold_map_of[OF assms, of "\<lambda>n. \<not> isProtected n" "1 - f" "targetBlendShapes s"]
    by (simp add: applyAnticipatedPhoneme_def p ne Let_def)
  show "applyAnticipatedPhoneme cur (Some nextP) f s =
             s\<lparr>targetBlendShapes :=
                 targetBlendShapes (applyAnticipatedPhoneme cur (Some nextP) f s)\<rparr>"
    by (simp add: applyAnticipatedPhoneme_def p ne Let_def)
next
  assume "isPausePhoneme cur \<and> \<not> isPausePhoneme nextP"
  then show "applyAnticipatedPhoneme cur (Some nextP) f s = s"
    by (simp add: applyAnticipatedPhoneme_def Let_def)
qed


lemma jaw_unprotected: "\<not> isProtected ''jaw''"
  by (simp add: isProtected_eval)

lemma happy_protected: "isProtected ''BlendShape_Main.Happy''"
  by (simp add: isProtected_eval)

definition happyControl :: control where
  "happyControl =
     \<lparr>control_mesh = True, control_index = Some 1, control_name = ''BlendShape_Main.Happy''\<rparr>"

definition faceControls :: "(string \<times> control option) list" where
  "faceControls = [(''jaw'', Some jawControl), (''BlendShape_Main.Happy'', Some happyControl)]"

definition speakingState :: controller where
  "speakingState =
     (newController faceControls)
       \<lparr>isAnimating := True, targetBlendShapes := [(''jaw'', 0.5)],
        currentBlendShapes := [(''jaw'', 0.25)]\<rparr>"

theorem anticipate_pause_witness:
  "distinct (map fst (blendShapeControls speakingState)) \<and>
   isPausePhoneme ''PAUSE_MED'' \<and>
   map_of (targetBlendShapes
             (applyAnticipatedPhoneme ''AAA'' (Some ''PAUSE_MED'') 0.35 speakingState)) ''jaw'' =
     Some 0.325 \<and>
   map_of (targetBlendShapes
             (applyAnticipatedPhoneme ''AAA'' (Some ''PAUSE_MED'') 0.35 speakingState))
       ''BlendShape_Main.Happy'' = None \<and>
   isPausePhoneme ''PAUSE_SHORT'' \<and> \<not> isPausePhoneme ''SSS'' \<and>
   applyAnticipatedPhoneme ''PAUSE_SHORT'' (Some ''SSS'') 0.35 speakingState = speakingState"
proof -
  have d: "distinct (map fst (blendShapeControls speakingState))"
    by (simp add: speakingState_def newController_def faceControls_def)
  have p: "isPausePhoneme ''PAUSE_MED''" "isPausePhoneme ''PAUSE_SHORT''" "\<not> isPausePhoneme ''SSS''"
    by (simp_all add: isPausePhoneme_def pauseNames_def)
  have c: "fst ` set (blendShapeControls speakingState) = {''jaw'', ''BlendShape_Main.Happy''}"
    by (simp add: speakingState_def newController_def faceControls_def)
  have t: "targetBlendShapes speakingState = [(''jaw'', 0.5)]"
    by (simp add: speakingState_def)
  from anticipate_pause[OF d, where nextP = "''PAUSE_MED''" and cur = "''AAA''" and f = "0.35"]
       anticipate_pause[OF d, where nextP = "''SSS''" and cur = "''PAUSE_SHORT''" and f = "0.35"] d p
  show ?thesis
    by (simp add: c t getOrZero_def jaw_unprotected happy_protected)
qed


subsection \<open>Pause monitoring\<close>

















subsection \<open>speak while an utterance is in flight\<close>










subsection \<open>stopAnimation\<close>

text \<open>
  C9 fails on a controller one of whose controls is \<open>null\<close>: the constructor's
  \<open>initializeBlendShapes\<close> skips the entry, and \<open>stopAnimation\<close> throws a \<open>TypeError\<close> in
  \<open>resetBlendShapes\<close>. The lemma \<open>stopAnimation_idempotent\<close> below shows that the claim
  holds when every control is an object.
\<close>

theorem stopAnimation_throws_on_null_control:
  "\<exists>s'. stopAnimation (initializeBlendShapes (newController [(''jaw'', None)])) =
          Inl (TypeError, s')"
  by (simp add: stopAnimation_def resetBlendShapes_def initializeBlendShapes_def
      newController_def clearAudioSource_def)


lemma deleteUnprotected_filter:
  "deleteUnprotected names al =
     filter (\<lambda>p. \<not> (fst p \<in> set names \<and> \<not> isProtected (fst p))) al"
proof (induction names arbitrary: al)
  case Nil
  then show ?case by (simp add: deleteUnprotected_def)
next
  case (Cons x xs)
  have "deleteUnprotected (x # xs) al =
          deleteUnprotected xs (if \<not> isProtected x then AList.delete x al else al)"
    by (simp add: deleteUnprotected_def)
  also have "\<dots> = filter (\<lambda>p. \<not> (fst p \<in> set xs \<and> \<not> isProtected (fst p)))
                      (if \<not> isProtected x then AList.delete x al else al)"
    by (rule Cons.IH)
  also have "\<dots> = filter (\<lambda>p. \<not> (fst p \<in> set (x # xs) \<and> \<not> isProtected (fst p))) al"
    by (auto simp: AList.delete_eq intro: filter_cong)
  finally show ?case .
qed

lemma deleteUnprotected_own_keys:
  "deleteUnprotected (map fst al) al = filter (\<lambda>p. isProtected (fst p)) al"
  unfolding deleteUnprotected_filter by (auto intro: filter_cong)

lemma deleteUnprotected_protected_names:
  "\<forall>n \<in> set names. isProtected n \<Longrightarrow> deleteUnprotected names al = al"
  unfolding deleteUnprotected_filter by (auto simp: filter_id_conv)

definition zeroStep :: "string \<times> control option \<Rightarrow> (string \<times> real) list \<Rightarrow> (string \<times> real) list" where
  "zeroStep = (\<lambda>(name, co) sk.
            case co of
              None \<Rightarrow> sk
            | Some c \<Rightarrow>
                if control_mesh c \<and> control_index c \<noteq> None \<and> \<not> isProtected name
                then AList.update name 0 sk else sk)"

definition zeroed :: "string \<times> control option \<Rightarrow> bool" where
  "zeroed p = (case snd p of None \<Rightarrow> False
               | Some c \<Rightarrow> control_mesh c \<and> control_index c \<noteq> None \<and> \<not> isProtected (fst p))"

lemma zeroStep_cases:
  "zeroStep p sk = (if zeroed p then AList.update (fst p) 0 sk else sk)"
  by (cases p) (auto simp: zeroStep_def zeroed_def split: option.splits)

lemma zeroControls_fold: "zeroControls controls sk = fold zeroStep controls sk"
  by (simp add: zeroControls_def zeroStep_def)

lemma zeroControls_map_of:
  "map_of (fold zeroStep controls sk) n =
     (if \<exists>p \<in> set controls. zeroed p \<and> fst p = n then Some 0 else map_of sk n)"
proof (induction controls arbitrary: sk)
  case Nil
  then show ?case by simp
next
  case (Cons p controls)
  show ?case
    by (simp add: Cons.IH) (auto simp: zeroStep_cases update_conv')
qed

lemma zeroControls_fixed:
  "\<forall>p \<in> set controls. zeroed p \<longrightarrow> map_of sk (fst p) = Some 0 \<Longrightarrow>
     fold zeroStep controls sk = sk"
proof (induction controls)
  case Nil
  then show ?case by simp
next
  case (Cons p controls)
  have "zeroStep p sk = sk"
    using Cons.prems by (simp add: zeroStep_cases update_triv)
  with Cons show ?case by simp
qed

lemma zeroControls_idem:
  "zeroControls controls (zeroControls controls sk) = zeroControls controls sk"
  unfolding zeroControls_fold
  by (rule zeroControls_fixed) (auto simp: zeroControls_map_of)

lemma stopAnimation_idempotent:
  assumes "controlsPresent s" and "stopAnimation s = Inr s1"
  shows "stopAnimation s1 = Inr s1"
    and "\<not> isAnimating s1" "\<not> pauseUpdateInterval s1" "lastAppliedPauseId s1 = None"
    and "\<not> currentlyInPause s1"
    and "\<forall>n. \<not> isProtected n \<longrightarrow> map_of (targetBlendShapes s1) n = None"
    and "\<forall>p \<in> set (blendShapeControls s1). zeroed p \<longrightarrow> map_of (sink s1) (fst p) = Some 0"
proof -
  let ?T = "deleteUnprotected (map fst (targetBlendShapes s)) (targetBlendShapes s)"
  let ?C = "deleteUnprotected (map fst (targetBlendShapes s)) (currentBlendShapes s)"
  let ?K = "zeroControls (blendShapeControls s) (sink s)"
  have s1: "s1 = s\<lparr>isAnimating := False, pauseUpdateInterval := False, currentAudio := False,
             detectedPauses := [], usingAudioBasedPauses := False, lastAppliedPauseId := None,
             currentlyInPause := False,
             targetBlendShapes := ?T, currentBlendShapes := ?C, sink := ?K\<rparr>"
    using assms(2) by (simp add: stopAnimation_present[OF assms(1)])
  have present1: "controlsPresent s1"
    using assms(1) by (simp add: controlsPresent_def s1)
  have names: "\<forall>n \<in> set (map fst ?T). isProtected n"
    by (auto simp: deleteUnprotected_own_keys)
  have T: "deleteUnprotected (map fst ?T) ?T = ?T" "deleteUnprotected (map fst ?T) ?C = ?C"
    using names by (simp_all add: deleteUnprotected_protected_names)
  show "stopAnimation s1 = Inr s1"
    unfolding stopAnimation_present[OF present1]
    by (simp add: s1 T zeroControls_idem)
  show "\<not> isAnimating s1" "\<not> pauseUpdateInterval s1" "lastAppliedPauseId s1 = None"
    "\<not> currentlyInPause s1"
    by (simp_all add: s1)
  show "\<forall>n. \<not> isProtected n \<longrightarrow> map_of (targetBlendShapes s1) n = None"
    by (auto simp: s1 deleteUnprotected_own_keys map_of_eq_None_iff)
  show "\<forall>p \<in> set (blendShapeControls s1). zeroed p \<longrightarrow> map_of (sink s1) (fst p) = Some 0"
    by (auto simp: s1 zeroControls_fold zeroControls_map_of)
qed


subsection \<open>Protected channels\<close>

definition protectedSame :: "(string \<times> real) list \<Rightarrow> (string \<times> real) list \<Rightarrow> bool" where
  "protectedSame al al' = (\<forall>n. isProtected n \<longrightarrow> map_of al' n = map_of al n)"

definition protectedUntouched :: "controller \<Rightarrow> controller \<Rightarrow> bool" where
  "protectedUntouched s s' =
     (protectedSame (targetBlendShapes s) (targetBlendShapes s') \<and>
      protectedSame (currentBlendShapes s) (currentBlendShapes s') \<and>
      protectedSame (sink s) (sink s'))"

definition protectedAbsent :: "controller \<Rightarrow> bool" where
  "protectedAbsent s =
     (\<forall>n. isProtected n \<longrightarrow>
        map_of (targetBlendShapes s) n = None \<and> map_of (currentBlendShapes s) n = None \<and>
        map_of (sink s) n = None)"

lemma protectedSame_refl [simp]: "protectedSame al al"
  by (simp add: protectedSame_def)

lemma protectedSame_trans:
  "protectedSame a b \<Longrightarrow> protectedSame b c \<Longrightarrow> protectedSame a c"
  by (simp add: protectedSame_def)

lemma protectedSame_update:
  "\<not> isProtected k \<Longrightarrow> protectedSame al (AList.update k v al)"
  by (auto simp: protectedSame_def update_conv')

lemma protectedSame_delete:
  "\<not> isProtected k \<Longrightarrow> protectedSame al (AList.delete k al)"
  by (auto simp: protectedSame_def delete_conv')

lemma protectedSame_fold:
  assumes "\<And>x al. x \<in> set xs \<Longrightarrow> protectedSame al (f x al)"
  shows "protectedSame al (fold f xs al)"
  using assms
proof (induction xs arbitrary: al)
  case Nil
  then show ?case by simp
next
  case (Cons x xs)
  have "protectedSame al (f x al)" by (rule Cons.prems) simp
  moreover have "protectedSame (f x al) (fold f xs (f x al))"
    by (rule Cons.IH) (simp add: Cons.prems)
  ultimately show ?case by (simp add: protectedSame_trans)
qed

lemma protectedUntouched_refl [simp]: "protectedUntouched s s"
  by (simp add: protectedUntouched_def)

lemma protectedUntouched_trans:
  "protectedUntouched a b \<Longrightarrow> protectedUntouched b c \<Longrightarrow> protectedUntouched a c"
  by (auto simp: protectedUntouched_def intro: protectedSame_trans)

lemma protectedUntouched_fold:
  assumes "\<And>x s. x \<in> set xs \<Longrightarrow> protectedUntouched s (f x s)"
  shows "protectedUntouched s (fold f xs s)"
  using assms
proof (induction xs arbitrary: s)
  case Nil
  then show ?case by simp
next
  case (Cons x xs)
  have "protectedUntouched s (f x s)" by (rule Cons.prems) simp
  moreover have "protectedUntouched (f x s) (fold f xs (f x s))"
    by (rule Cons.IH) (simp add: Cons.prems)
  ultimately show ?case by (simp add: protectedUntouched_trans)
qed

lemma protectedUntouched_maps:
  assumes "protectedSame (targetBlendShapes s) (targetBlendShapes s')"
    and "protectedSame (currentBlendShapes s) (currentBlendShapes s')"
    and "protectedSame (sink s) (sink s')"
  shows "protectedUntouched s s'"
  using assms by (simp add: protectedUntouched_def)

lemma protectedUntouched_absent:
  "protectedUntouched s s' \<Longrightarrow> protectedAbsent s \<Longrightarrow> protectedAbsent s'"
  by (simp add: protectedUntouched_def protectedSame_def protectedAbsent_def)

subsubsection \<open>The loops over the targets\<close>

lemma resetTargets_same: "protectedSame tg (resetTargets controls tg)"
  unfolding resetTargets_def
  by (rule protectedSame_fold) (simp add: protectedSame_update)

lemma jawControls_unprotected:
  "c \<in> set (jawControls controls names) \<Longrightarrow> \<not> isProtected (control_name c)"
  by (simp add: jawControls_def)

lemma setJawTargets_same:
  "protectedSame tg (setJawTargets (jawControls controls names) v tg)"
  unfolding setJawTargets_def
  by (rule protectedSame_fold) (simp add: protectedSame_update jawControls_unprotected)

lemma mapped_fold_same:
  "protectedSame tg
     (fold (\<lambda>shapes tg.
              fold (\<lambda>(name, weight) tg.
                     if controlAt controls name \<noteq> None \<and> \<not> isProtected name
                     then AList.update name (g name weight tg) tg else tg)
                shapes tg)
        mapped tg)"
  by (intro protectedSame_fold) (auto simp: protectedSame_update)

lemma applyPhoneme_untouched: "protectedUntouched s (applyPhoneme phoneme s)"
proof (rule protectedUntouched_maps)
  show "protectedSame (targetBlendShapes s) (targetBlendShapes (applyPhoneme phoneme s))"
  proof (cases "isPausePhoneme phoneme")
    case True
    then show ?thesis
      by (simp add: applyPhoneme_def Let_def)
         (blast intro: protectedSame_trans resetTargets_same setJawTargets_same)
  next
    case False
    let ?t1 = "resetTargets (blendShapeControls s) (targetBlendShapes s)"
    let ?t2 = "fold (\<lambda>shapes tg.
                      fold (\<lambda>(name, weight) tg.
                             if controlAt (blendShapeControls s) name \<noteq> None \<and> \<not> isProtected name
                             then AList.update name weight tg else tg)
                        shapes tg)
                 (mappedShapesOf (blendShapeControls s) phoneme) ?t1"
    have a: "protectedSame (targetBlendShapes s) ?t1" by (rule resetTargets_same)
    have b: "protectedSame ?t1 ?t2"
      by (rule mapped_fold_same[where g = "\<lambda>name weight tg. weight"])
    have c: "protectedSame ?t2
               (setJawTargets (jawControls (blendShapeControls s) vowelJawNames) 0.5 ?t2)"
      by (rule setJawTargets_same)
    from a b c False show ?thesis
      by (auto simp: applyPhoneme_def Let_def intro: protectedSame_trans)
  qed
qed (simp_all add: applyPhoneme_def Let_def)


definition keysUnprotected :: "(string \<times> real) list \<Rightarrow> bool" where
  "keysUnprotected al = (\<forall>k \<in> fst ` set al. \<not> isProtected k)"

lemma keysUnprotected_update:
  "keysUnprotected al \<Longrightarrow> \<not> isProtected k \<Longrightarrow> keysUnprotected (AList.update k v al)"
  by (simp add: keysUnprotected_def dom_update)

lemma keysUnprotected_fold:
  assumes "\<And>x al. keysUnprotected al \<Longrightarrow> keysUnprotected (f x al)" and "keysUnprotected al"
  shows "keysUnprotected (fold f xs al)"
  using assms by (induction xs arbitrary: al) simp_all

lemma blended_fold_unprotected:
  "keysUnprotected b \<Longrightarrow>
   keysUnprotected
     (fold (\<lambda>shapes b.
              fold (\<lambda>(name, weight) b.
                     if controlAt controls name \<noteq> None \<and> \<not> isProtected name
                     then AList.update name (g name weight b) b else b)
                shapes b)
        mapped b)"
  by (intro keysUnprotected_fold) (auto simp: keysUnprotected_update)

lemma write_blended_same:
  "keysUnprotected bs \<Longrightarrow>
     protectedSame tg (fold (\<lambda>(name, weight) tg. AList.update name weight tg) bs tg)"
  by (rule protectedSame_fold) (auto simp: keysUnprotected_def protectedSame_update)

lemma scale_fold_same:
  "protectedSame tg
     (fold (\<lambda>name tg.
              if \<not> isProtected name
              then (let currentValue = getOrZero tg name
                    in AList.update name (currentValue * c) tg)
              else tg) names tg)"
  by (rule protectedSame_fold) (simp add: protectedSame_update Let_def)

lemma applyAnticipatedPhoneme_untouched:
  "protectedUntouched s (applyAnticipatedPhoneme cur nxt f s)"
proof (rule protectedUntouched_maps)
  show "protectedSame (targetBlendShapes s)
          (targetBlendShapes (applyAnticipatedPhoneme cur nxt f s))"
  proof (cases nxt)
    case None
    then show ?thesis by (simp add: applyAnticipatedPhoneme_def)
  next
    case (Some nextP)
    let ?cs = "blendShapeControls s"
    let ?b1 = "fold (\<lambda>shapes b.
                       fold (\<lambda>(name, weight) b.
                              if controlAt ?cs name \<noteq> None \<and> \<not> isProtected name
                              then AList.update name (weight * (1 - f)) b else b)
                         shapes b)
                  (mappedShapesOf ?cs cur) []"
    let ?b2 = "fold (\<lambda>shapes b.
                       fold (\<lambda>(name, weight) b.
                              if controlAt ?cs name \<noteq> None \<and> \<not> isProtected name
                              then AList.update name (getOrZero b name + weight * f) b
                              else b)
                         shapes b)
                  (mappedShapesOf ?cs nextP) ?b1"
    let ?t1 = "fold (\<lambda>(name, weight) tg. AList.update name weight tg) ?b2 (targetBlendShapes s)"
    have "keysUnprotected ?b1"
      by (rule blended_fold_unprotected[where g = "\<lambda>name weight b. weight * (1 - f)"])
         (simp add: keysUnprotected_def)
    then have "keysUnprotected ?b2"
      by (rule blended_fold_unprotected[where g = "\<lambda>name weight b. getOrZero b name + weight * f"])
    then have t1: "protectedSame (targetBlendShapes s) ?t1"
      by (rule write_blended_same)
    have t2: "protectedSame ?t1 (setJawTargets (jawControls ?cs vowelJawNames) v ?t1)" for v
      by (rule setJawTargets_same)
    have sc: "protectedSame (targetBlendShapes s)
                (fold (\<lambda>name tg.
                         if \<not> isProtected name
                         then AList.update name (getOrZero tg name * (1 - f)) tg
                         else tg) (map fst ?cs) (targetBlendShapes s))"
      using scale_fold_same[of "targetBlendShapes s" "1 - f" "map fst ?cs"]
      unfolding Let_def .
    show ?thesis
      unfolding Some applyAnticipatedPhoneme_def Let_def
      using sc t1 t2
      by (auto intro: protectedSame_trans)
  qed
qed (auto simp: applyAnticipatedPhoneme_def Let_def split: option.splits)

lemma applyPausePhoneme_untouched: "protectedUntouched s (applyPausePhoneme pauseType s)"
  by (rule protectedUntouched_maps) (simp_all add: applyPausePhoneme_def resetTargets_same)

lemma pausePoll_untouched: "protectedUntouched s (snd (pausePoll t s))"
proof -
  have "protectedUntouched s
          ((applyPausePhoneme ty s)\<lparr>lastAppliedPauseId := x, currentlyInPause := y\<rparr>)" for ty x y
    using applyPausePhoneme_untouched[of s ty] by (simp add: protectedUntouched_def)
  then show ?thesis
    by (auto simp: pausePoll_def Let_def protectedUntouched_def split: option.splits)
qed

lemma interpolateBlendShapes_untouched:
  "protectedUntouched s (interpolateBlendShapes delta s)"
  unfolding interpolateBlendShapes_def
  by (rule protectedUntouched_fold)
     (auto simp: protectedUntouched_def protectedSame_update Let_def split: option.splits)

lemma animate_untouched: "protectedUntouched s (animate delta s)"
  by (simp add: animate_def interpolateBlendShapes_untouched)

lemma initializeBlendShapes_untouched: "protectedUntouched s (initializeBlendShapes s)"
  unfolding initializeBlendShapes_def
  by (rule protectedUntouched_fold)
     (auto simp: protectedUntouched_def protectedSame_update split: option.splits)

lemma resetControls_same:
  "protectedSame sk (case resetControls controls sk of Inl (e, sk') \<Rightarrow> sk' | Inr sk' \<Rightarrow> sk')"
proof (induction controls arbitrary: sk)
  case Nil
  then show ?case by simp
next
  case (Cons p controls)
  obtain name co where p: "p = (name, co)" by (cases p)
  show ?case
  proof (cases co)
    case None
    then show ?thesis by (simp add: p)
  next
    case (Some c)
    let ?sk1 = "if control_mesh c \<and> control_index c \<noteq> None \<and> \<not> isProtected name
                then AList.update name 0 sk else sk"
    have "protectedSame sk ?sk1" by (simp add: protectedSame_update)
    from protectedSame_trans[OF this Cons.IH[of ?sk1]] show ?thesis
      by (simp add: p Some)
  qed
qed

definition stateAfter :: "error \<times> controller + controller \<Rightarrow> controller" where
  "stateAfter r = (case r of Inl (e, s) \<Rightarrow> s | Inr s \<Rightarrow> s)"

lemma resetBlendShapes_untouched: "protectedUntouched s (stateAfter (resetBlendShapes s))"
proof -
  let ?names = "map fst (targetBlendShapes s)"
  let ?s1 = "s\<lparr>targetBlendShapes := deleteUnprotected ?names (targetBlendShapes s),
               currentBlendShapes := deleteUnprotected ?names (currentBlendShapes s)\<rparr>"
  have d: "protectedSame al (deleteUnprotected ?names al)" for al
    unfolding deleteUnprotected_def
    by (rule protectedSame_fold) (simp add: protectedSame_delete)
  have k: "protectedSame (sink s)
             (case resetControls (blendShapeControls s) (sink s) of
                Inl (e, sk') \<Rightarrow> sk' | Inr sk' \<Rightarrow> sk')"
    by (rule resetControls_same)
  show ?thesis
    using d k
    by (auto simp: resetBlendShapes_def reset_fold_fields stateAfter_def protectedUntouched_def
        split: sum.splits)
qed

lemma stopAnimation_untouched: "protectedUntouched s (stateAfter (stopAnimation s))"
  using resetBlendShapes_untouched[of "clearAudioSource (s\<lparr>isAnimating := False\<rparr>)"]
  by (simp add: stopAnimation_def protectedUntouched_def clearAudioSource_def)


definition finalState :: "error \<times> controller + 'a \<times> controller \<Rightarrow> controller" where
  "finalState r = (case r of Inl (e, s) \<Rightarrow> s | Inr (d, s) \<Rightarrow> s)"

lemma stop_or_keep_untouched:
  "protectedUntouched s
     (case (if isAnimating s then stopAnimation s else Inr s) of
        Inl (e, s') \<Rightarrow> s' | Inr s' \<Rightarrow> s')"
  using stopAnimation_untouched[of s] by (simp add: stateAfter_def)

lemma startPreparedAnimation_untouched:
  "protectedUntouched s (finalState (startPreparedAnimation delta s))"
proof (cases "preparedPhonemes s")
  case None
  then show ?thesis by (simp add: startPreparedAnimation_def finalState_def)
next
  case (Some pp)
  show ?thesis
  proof (cases "if isAnimating s then stopAnimation s else Inr s")
    case (Inl x)
    then show ?thesis
      using stop_or_keep_untouched[of s]
      by (auto simp: startPreparedAnimation_def finalState_def Some split: prod.splits)
  next
    case (Inr s1)
    obtain ts lastT where loop:
      "scheduleLoop (phonemeSpeedMs s1) (anticipationEnabled pp) (anticipationFactor pp)
         (anticipationOffset pp) (phonemeOffsetMs s1) (phonemes pp) (timers s1, 0) = (ts, lastT)"
      by (cases "scheduleLoop (phonemeSpeedMs s1) (anticipationEnabled pp) (anticipationFactor pp)
         (anticipationOffset pp) (phonemeOffsetMs s1) (phonemes pp) (timers s1, 0)")
    define s3 where "s3 = s1\<lparr>isAnimating := True, timers := ts, lastPhonemeTime := lastT,
                              preparedPhonemes := None\<rparr>"
    have a: "protectedUntouched s s1"
      using stop_or_keep_untouched[of s] Inr by simp
    have b: "protectedUntouched s1 s3"
      by (simp add: s3_def protectedUntouched_def)
    have c: "protectedUntouched s3 (animate delta s3)" by (rule animate_untouched)
    have "finalState (startPreparedAnimation delta s) = animate delta s3"
      using Inr loop
      by (simp add: startPreparedAnimation_def finalState_def Some s3_def
          del: scheduleLoop.simps)
    with a b c show ?thesis by (auto intro: protectedUntouched_trans)
  qed
qed

lemma speak_untouched:
  "protectedUntouched s (finalState (speak txt speed fetched delta s))"
proof (cases "txt = []")
  case True
  then show ?thesis by (simp add: speak_def finalState_def)
next
  case False
  show ?thesis
  proof (cases "if isAnimating s then stopAnimation s else Inr s")
    case (Inl x)
    then show ?thesis
      using stop_or_keep_untouched[of s] False
      by (auto simp: speak_def finalState_def split: prod.splits)
  next
    case (Inr s1)
    define s4 where "s4 =
      (case fetched of
         Some ps \<Rightarrow> (s1\<lparr>phonemeSpeedMs :=
                            (case map_of speechRate speed of Some r \<Rightarrow> r | None \<Rightarrow> 135)\<rparr>)
                      \<lparr>preparedPhonemes := Some (preparedOf ps (s1\<lparr>phonemeSpeedMs :=
                            (case map_of speechRate speed of Some r \<Rightarrow> r | None \<Rightarrow> 135)\<rparr>))\<rparr>
       | None \<Rightarrow> preparePhonemes txt (s1\<lparr>phonemeSpeedMs :=
                            (case map_of speechRate speed of Some r \<Rightarrow> r | None \<Rightarrow> 135)\<rparr>))
        \<lparr>isAnimating := True, lastPhonemeTime := 0\<rparr>"
    have a: "protectedUntouched s s1"
      using stop_or_keep_untouched[of s] Inr by simp
    have b: "protectedUntouched s1 s4"
      by (cases fetched) (simp_all add: s4_def preparePhonemes_def protectedUntouched_def)
    have c: "protectedUntouched s4 (finalState (startPreparedAnimation delta s4))"
      by (rule startPreparedAnimation_untouched)
    have "finalState (speak txt speed fetched delta s) =
            finalState (startPreparedAnimation delta s4)"
      using False Inr
      by (simp add: speak_def finalState_def Let_def s4_def split: sum.splits prod.splits)
    with a b c show ?thesis
      by (auto intro: protectedUntouched_trans)
  qed
qed

lemma setAudioSource_untouched: "protectedUntouched s (snd (setAudioSource analysis s))"
  by (auto simp: setAudioSource_def clearAudioSource_def startAudioPauseMonitoring_def
      protectedUntouched_def Let_def split: option.splits)

lemma clearAudioSource_untouched: "protectedUntouched s (clearAudioSource s)"
  by (simp add: clearAudioSource_def protectedUntouched_def)

lemma runEvent_untouched: "protectedUntouched s (runEvent e s)"
  by (cases e) (simp_all add: applyPhoneme_untouched applyAnticipatedPhoneme_untouched)

text \<open>The operations of the subsystem, and the state each leaves (also when it throws).\<close>

datatype operation =
    OpInitialize
  | OpApplyPhoneme string
  | OpApplyAnticipated string "string option" real
  | OpApplyPause string
  | OpPausePoll real
  | OpInterpolate real
  | OpAnimate real
  | OpTimer event
  | OpReset
  | OpStop
  | OpStartPrepared real
  | OpSpeak string string "string list option" real
  | OpSetAudioSource "pause list option"
  | OpClearAudioSource

fun perform :: "operation \<Rightarrow> controller \<Rightarrow> controller" where
  "perform OpInitialize s = initializeBlendShapes s"
| "perform (OpApplyPhoneme p) s = applyPhoneme p s"
| "perform (OpApplyAnticipated c n f) s = applyAnticipatedPhoneme c n f s"
| "perform (OpApplyPause p) s = applyPausePhoneme p s"
| "perform (OpPausePoll t) s = snd (pausePoll t s)"
| "perform (OpInterpolate d) s = interpolateBlendShapes d s"
| "perform (OpAnimate d) s = animate d s"
| "perform (OpTimer e) s = runEvent e s"
| "perform OpReset s = stateAfter (resetBlendShapes s)"
| "perform OpStop s = stateAfter (stopAnimation s)"
| "perform (OpStartPrepared delta) s = finalState (startPreparedAnimation delta s)"
| "perform (OpSpeak txt speed fetched delta) s = finalState (speak txt speed fetched delta s)"
| "perform (OpSetAudioSource a) s = snd (setAudioSource a s)"
| "perform OpClearAudioSource s = clearAudioSource s"

lemma perform_untouched: "protectedUntouched s (perform oper s)"
  by (cases oper)
     (simp_all add: initializeBlendShapes_untouched applyPhoneme_untouched
        applyAnticipatedPhoneme_untouched applyPausePhoneme_untouched pausePoll_untouched
        interpolateBlendShapes_untouched animate_untouched runEvent_untouched
        resetBlendShapes_untouched stopAnimation_untouched startPreparedAnimation_untouched
        speak_untouched setAudioSource_untouched clearAudioSource_untouched)

lemma performs_untouched: "protectedUntouched s (fold perform opers s)"
  by (rule protectedUntouched_fold) (rule perform_untouched)

lemma newController_absent: "protectedAbsent (newController controls)"
  by (simp add: protectedAbsent_def newController_def)

text \<open>
  C7. No operation of the subsystem writes a protected channel: whatever the state, the
  entries of the target map, of the current map and of the sink for a channel that
  \<open>isProtectedEmotionShape\<close> protects are the same after the operation as before, also
  when the operation throws. Hence, from the constructor's state on, after any sequence of
  operations no protected channel has an entry in the target map, in the current map or in
  the sink. The operations are \<open>initializeBlendShapes\<close>, \<open>applyPhoneme\<close>,
  \<open>applyAnticipatedPhoneme\<close>, \<open>applyPausePhoneme\<close>, the poll of the pause monitor,
  \<open>interpolateBlendShapes\<close>, \<open>animate\<close>, a timer that runs, \<open>resetBlendShapes\<close>,
  \<open>stopAnimation\<close>, \<open>startPreparedAnimation\<close>, \<open>speak\<close>, \<open>setAudioSource\<close> and
  \<open>clearAudioSource\<close>.
\<close>

theorem protected_channels_never_written:
  "(\<forall>n. isProtected n \<longrightarrow>
      map_of (targetBlendShapes (perform oper s)) n = map_of (targetBlendShapes s) n \<and>
      map_of (currentBlendShapes (perform oper s)) n = map_of (currentBlendShapes s) n \<and>
      map_of (sink (perform oper s)) n = map_of (sink s) n) \<and>
   (\<forall>n. isProtected n \<longrightarrow>
      map_of (targetBlendShapes (fold perform opers (newController controls))) n = None \<and>
      map_of (currentBlendShapes (fold perform opers (newController controls))) n = None \<and>
      map_of (sink (fold perform opers (newController controls))) n = None)"
proof -
  have "protectedAbsent (fold perform opers (newController controls))"
    using performs_untouched newController_absent by (rule protectedUntouched_absent)
  then show ?thesis
    using perform_untouched[of s oper]
    by (simp add: protectedAbsent_def protectedUntouched_def protectedSame_def)
qed


definition sessionOps :: "operation list" where
  "sessionOps =
     [OpInitialize, OpSpeak ''ma'' ''normal'' None 0, OpTimer (Apply ''MBP''), OpInterpolate 0.05,
      OpTimer (Apply ''AAA''), OpApplyPause ''PAUSE_MED'', OpStop]"

theorem protected_channels_never_written_witness:
  "isProtected ''BlendShape_Main.Happy'' \<and>
   map_of (targetBlendShapes (fold perform sessionOps (newController faceControls)))
     ''BlendShape_Main.Happy'' = None \<and>
   map_of (currentBlendShapes (fold perform sessionOps (newController faceControls)))
     ''BlendShape_Main.Happy'' = None \<and>
   map_of (sink (fold perform sessionOps (newController faceControls)))
     ''BlendShape_Main.Happy'' = None \<and>
   map_of (sink (perform OpInitialize (newController faceControls))) ''jaw'' = Some 0"
proof -
  have "map_of (sink (perform OpInitialize (newController faceControls))) ''jaw'' = Some 0"
    by (simp add: initializeBlendShapes_def newController_def faceControls_def jawControl_def
        happyControl_def jaw_unprotected happy_protected)
  with protected_channels_never_written[of OpInitialize "newController faceControls"
      sessionOps faceControls] happy_protected
  show ?thesis by blast
qed

end
